theory Spec2Isabelle
  imports Main
begin

section \<open>JavaScript string primitives\<close>

text \<open>
  Strings are character lists. Only the primitives the resolver calls are modelled, with the
  results the ECMAScript standard gives them: \<open>indexOf\<close> is \<open>-1\<close> when the character does not
  occur, \<open>slice\<close> clamps its bounds to the string, a negative bound counts from the end.
\<close>

definition indexOfFrom :: "string \<Rightarrow> char \<Rightarrow> int \<Rightarrow> int" where
  "indexOfFrom s c from =
     (let k = nat from in
      if c \<in> set (drop k s)
      then int (k + length (takeWhile (\<lambda>x. x \<noteq> c) (drop k s)))
      else - 1)"

definition indexOf :: "string \<Rightarrow> char \<Rightarrow> int" where
  "indexOf s c = indexOfFrom s c 0"

definition clampIndex :: "string \<Rightarrow> int \<Rightarrow> nat" where
  "clampIndex s i =
     (if i < 0 then nat (max (int (length s) + i) 0) else min (nat i) (length s))"

definition slice :: "string \<Rightarrow> int \<Rightarrow> int \<Rightarrow> string" where
  "slice s a b = (let i = clampIndex s a; j = clampIndex s b in take (j - i) (drop i s))"

definition sliceFrom :: "string \<Rightarrow> int \<Rightarrow> string" where
  "sliceFrom s a = drop (clampIndex s a) s"

definition startsWith :: "string \<Rightarrow> string \<Rightarrow> bool" where
  "startsWith s p = (take (length p) s = p)"

definition endsWith :: "string \<Rightarrow> string \<Rightarrow> bool" where
  "endsWith s p = (length p \<le> length s \<and> drop (length s - length p) s = p)"

fun strIncludes :: "string \<Rightarrow> string \<Rightarrow> bool" where
  "strIncludes [] p = (p = [])"
| "strIncludes (c # s) p = (startsWith (c # s) p \<or> strIncludes s p)"

definition lastIndexOf :: "string \<Rightarrow> char \<Rightarrow> int" where
  "lastIndexOf s c =
     (if c \<in> set s then int (length s - length (takeWhile (\<lambda>x. x \<noteq> c) (rev s)) - 1)
      else - 1)"

text \<open>\<open>substring\<close> treats a negative bound as 0 and swaps its bounds when they are reversed.\<close>

definition substring :: "string \<Rightarrow> int \<Rightarrow> int \<Rightarrow> string" where
  "substring s a b =
     (let i = min (nat a) (length s); j = min (nat b) (length s)
      in take (max i j - min i j) (drop (min i j) s))"

definition substringFrom :: "string \<Rightarrow> int \<Rightarrow> string" where
  "substringFrom s a = drop (min (nat a) (length s)) s"

text \<open>
  White space as \<open>trim\<close> and the regular expression class \<open>\s\<close> see it. A character of
  the model is a code unit below 256, and among those the white space is tab, line feed,
  vertical tab, form feed, carriage return, space and the no-break space \<open>U+00A0\<close>.
\<close>

definition isSpace :: "char \<Rightarrow> bool" where
  "isSpace c = (c \<in> {CHR 0x09, CHR 0x0A, CHR 0x0B, CHR 0x0C, CHR 0x0D, CHR 0x20, CHR 0xA0})"

definition trim :: "string \<Rightarrow> string" where
  "trim s = rev (dropWhile isSpace (rev (dropWhile isSpace s)))"

text \<open>The regular expression class \<open>\w\<close>: letters, digits and the underscore.\<close>

definition isWordChar :: "char \<Rightarrow> bool" where
  "isWordChar c =
     (let n = of_char c :: nat
      in (48 \<le> n \<and> n \<le> 57) \<or> (65 \<le> n \<and> n \<le> 90) \<or> (97 \<le> n \<and> n \<le> 122) \<or> n = 95)"

text \<open>Truthiness of a value of type \<open>string | undefined\<close>: the empty string is falsy.\<close>

definition truthy :: "string option \<Rightarrow> bool" where
  "truthy r = (case r of None \<Rightarrow> False | Some s \<Rightarrow> s \<noteq> [])"

text \<open>What a template literal prints for a value of type \<open>string | undefined\<close>.\<close>

definition templateString :: "string option \<Rightarrow> string" where
  "templateString r = (case r of None \<Rightarrow> ''undefined'' | Some s \<Rightarrow> s)"

text \<open>
  A regular expression of the shape \<open>a\s*b\<close>, tested anywhere in the text: the literal
  \<open>a\<close>, any amount of white space, the literal \<open>b\<close>.
\<close>

definition matchSpacedAt :: "string \<Rightarrow> string \<Rightarrow> string \<Rightarrow> bool" where
  "matchSpacedAt a b s =
     (startsWith s a \<and> startsWith (dropWhile isSpace (drop (length a) s)) b)"

fun testSpaced :: "string \<Rightarrow> string \<Rightarrow> string \<Rightarrow> bool" where
  "testSpaced a b [] = matchSpacedAt a b []"
| "testSpaced a b (c # s) = (matchSpacedAt a b (c # s) \<or> testSpaced a b s)"

section \<open>Node's \<open>path\<close> module, POSIX flavour\<close>

text \<open>
  The functions of \<open>node:path\<close> the resolver calls, for POSIX paths: path segments are
  separated by \<open>/\<close>, and \<open>normalize\<close> drops empty and \<open>.\<close> segments and resolves \<open>..\<close>
  against the segment before it.
\<close>

fun splitOn :: "char \<Rightarrow> string \<Rightarrow> string list" where
  "splitOn c [] = [[]]"
| "splitOn c (x # xs) =
     (if x = c then [] # splitOn c xs
      else (case splitOn c xs of [] \<Rightarrow> [[x]] | seg # segs \<Rightarrow> (x # seg) # segs))"

fun joinWith :: "string \<Rightarrow> string list \<Rightarrow> string" where
  "joinWith sep [] = []"
| "joinWith sep [x] = x"
| "joinWith sep (x # y # ys) = x @ sep @ joinWith sep (y # ys)"

text \<open>\<open>normalizeString\<close> of Node, on the list of segments; \<open>acc\<close> is the result so far, reversed.\<close>

fun normalizeSegments :: "bool \<Rightarrow> string list \<Rightarrow> string list \<Rightarrow> string list" where
  "normalizeSegments allowAboveRoot acc [] = rev acc"
| "normalizeSegments allowAboveRoot acc (seg # segs) =
     (if seg = [] \<or> seg = ''.'' then normalizeSegments allowAboveRoot acc segs
      else if seg = ''..'' then
        (if acc \<noteq> [] \<and> hd acc \<noteq> ''..'' then normalizeSegments allowAboveRoot (tl acc) segs
         else if allowAboveRoot then normalizeSegments allowAboveRoot (''..'' # acc) segs
         else normalizeSegments allowAboveRoot acc segs)
      else normalizeSegments allowAboveRoot (seg # acc) segs)"

definition normalizeString :: "string \<Rightarrow> bool \<Rightarrow> string" where
  "normalizeString p allowAboveRoot =
     joinWith ''/'' (normalizeSegments allowAboveRoot [] (splitOn CHR ''/'' p))"

definition isAbsolute :: "string \<Rightarrow> bool" where
  "isAbsolute p = (p \<noteq> [] \<and> hd p = CHR ''/'')"

definition posixNormalize :: "string \<Rightarrow> string" where
  "posixNormalize p =
     (if p = [] then ''.''
      else let isAbs = isAbsolute p;
               trailingSeparator = (last p = CHR ''/'');
               q = normalizeString p (\<not> isAbs)
           in if q = [] then (if isAbs then ''/'' else if trailingSeparator then ''./'' else ''.'')
              else (if isAbs then ''/'' else []) @ q @ (if trailingSeparator then ''/'' else []))"

text \<open>\<open>path.join\<close> of two arguments.\<close>

definition pathJoin :: "string \<Rightarrow> string \<Rightarrow> string" where
  "pathJoin a b =
     (let parts = filter (\<lambda>x. x \<noteq> []) [a, b]
      in if parts = [] then ''.'' else posixNormalize (joinWith ''/'' parts))"

text \<open>
  \<open>path.resolve\<close> of two arguments; \<open>wd\<close> is the working directory of the process, used
  when neither argument is absolute.
\<close>

definition pathResolve :: "string \<Rightarrow> string \<Rightarrow> string \<Rightarrow> string" where
  "pathResolve wd a b =
     (let r0 = (if b = [] then [] else b @ ''/'');
          abs0 = isAbsolute b;
          r1 = (if abs0 \<or> a = [] then r0 else a @ ''/'' @ r0);
          abs1 = (abs0 \<or> isAbsolute a);
          r2 = (if abs1 \<or> wd = [] then r1 else wd @ ''/'' @ r1);
          abs2 = (abs1 \<or> isAbsolute wd);
          q = normalizeString r2 (\<not> abs2)
      in if abs2 then ''/'' @ q else if q \<noteq> [] then q else ''.'')"

definition dirname :: "string \<Rightarrow> string" where
  "dirname p =
     (if p = [] then ''.''
      else let hasRoot = (hd p = CHR ''/'');
               r = dropWhile (\<lambda>c. c \<noteq> CHR ''/'') (dropWhile (\<lambda>c. c = CHR ''/'') (rev (tl p)));
               e = length r
           in if e = 0 then (if hasRoot then ''/'' else ''.'')
              else if hasRoot \<and> e = 1 then ''//''
              else take e p)"

definition basename :: "string \<Rightarrow> string" where
  "basename p = rev (takeWhile (\<lambda>c. c \<noteq> CHR ''/'') (dropWhile (\<lambda>c. c = CHR ''/'') (rev p)))"

definition extname :: "string \<Rightarrow> string" where
  "extname p =
     (let base = basename p;
          afterDot = takeWhile (\<lambda>c. c \<noteq> CHR ''.'') (rev base);
          startDot = length base - length afterDot - 1
      in if CHR ''.'' \<notin> set base \<or> startDot = 0 \<or> base = ''..'' then ''''
         else drop startDot base)"

fun dropCommonPrefix :: "string list \<Rightarrow> string list \<Rightarrow> string list \<times> string list" where
  "dropCommonPrefix (x # xs) (y # ys) =
     (if x = y then dropCommonPrefix xs ys else (x # xs, y # ys))"
| "dropCommonPrefix xs ys = (xs, ys)"

text \<open>\<open>path.relative\<close>: both paths are resolved first, then compared segment by segment.\<close>

definition pathRelative :: "string \<Rightarrow> string \<Rightarrow> string \<Rightarrow> string" where
  "pathRelative wd from to =
     (let f = pathResolve wd [] from; t = pathResolve wd [] to
      in if f = t then []
         else let (fsegs, tsegs) = dropCommonPrefix (filter (\<lambda>x. x \<noteq> []) (splitOn CHR ''/'' f))
                               (filter (\<lambda>x. x \<noteq> []) (splitOn CHR ''/'' t))
              in joinWith ''/'' (replicate (length fsegs) ''..'' @ tsegs))"

section \<open>Data model\<close>

text \<open>
  A thrown error carries an optional \<open>code\<close> (as Node's filesystem errors do) and a message.
  A call either returns, throws, or runs out of the fuel that bounds the depth of the
  mutually recursive probing (\<open>Diverge\<close>); running out of fuel is not an error that a
  \<open>catch\<close> of the program sees.
\<close>

datatype jserror = Error (err_code: "string option") (err_message: string)

datatype 'a outcome = Return 'a | Throw jserror | Diverge

datatype json = JNull | JBool bool | JNumber int | JString string
  | JArray "json list" | JObject "(string \<times> json) list"

fun jsonTruthy :: "json \<Rightarrow> bool" where
  "jsonTruthy JNull = False"
| "jsonTruthy (JBool b) = b"
| "jsonTruthy (JNumber n) = (n \<noteq> 0)"
| "jsonTruthy (JString s) = (s \<noteq> [])"
| "jsonTruthy (JArray xs) = True"
| "jsonTruthy (JObject kvs) = True"

text \<open>\<open>isObject(v) && !Array.isArray(v)\<close>: a plain object, and \<open>isObject\<close> alone is the same test.\<close>

fun isObject :: "json \<Rightarrow> bool" where
  "isObject (JObject kvs) = True"
| "isObject v = False"

text \<open>
  The \<open>browser\<close> field of a manifest is a string or a map from paths to \<open>string | false\<close>;
  the pairs of the map stand in the order in which \<open>for ... in\<close> enumerates its keys.
\<close>

datatype browser_value = Mapped string | Externalized

datatype browser_field = BrowserString string | BrowserMap "(string \<times> browser_value) list"

record pkg_data =
  d_main :: "string option"
  d_module :: "string option"
  d_browser :: "browser_field option"
  d_exports :: "json option"
  d_fields :: "(string \<times> string) list"

text \<open>\<open>data[field]\<close> when \<open>typeof data[field] === 'string'\<close>, and \<open>None\<close> otherwise.\<close>

definition dataString :: "pkg_data \<Rightarrow> string \<Rightarrow> string option" where
  "dataString d field =
     (if field = ''main'' then d_main d
      else if field = ''module'' then d_module d
      else if field = ''browser'' then
        (case d_browser d of Some (BrowserString s) \<Rightarrow> Some s | _ \<Rightarrow> None)
      else if field = ''exports'' then
        (case d_exports d of Some (JString s) \<Rightarrow> Some s | _ \<Rightarrow> None)
      else map_of (d_fields d) field)"

record PackageData =
  dir :: string
  data :: pkg_data
  webResolvedImports :: "string \<rightharpoonup> string"
  nodeResolvedImports :: "string \<rightharpoonup> string"
  hasSideEffects :: "string \<Rightarrow> bool"

text \<open>
  Modelled from the spec: \<open>setResolvedCache\<close> and \<open>getResolvedCache\<close> are methods of the
  package handle, built by the manifest loader (\<open>../packages\<close>). The specification gives
  them as per-package mappings from subpath key to resolved file string, partitioned by
  \<open>targetWeb\<close>.
\<close>

definition getResolvedCache :: "PackageData \<Rightarrow> string \<Rightarrow> bool \<Rightarrow> string option" where
  "getResolvedCache pkg key targetWeb =
     (if targetWeb then webResolvedImports pkg key else nodeResolvedImports pkg key)"

definition setResolvedCache :: "PackageData \<Rightarrow> string \<Rightarrow> string \<Rightarrow> bool \<Rightarrow> PackageData" where
  "setResolvedCache pkg key entry targetWeb =
     (if targetWeb then pkg\<lparr>webResolvedImports := (webResolvedImports pkg)(key \<mapsto> entry)\<rparr>
      else pkg\<lparr>nodeResolvedImports := (nodeResolvedImports pkg)(key \<mapsto> entry)\<rparr>)"

record InternalResolveOptions =
  o_mainFields :: "string list option"
  o_conditions :: "string list option"
  o_extensions :: "string list option"
  o_dedupe :: "string list option"
  o_preserveSymlinks :: bool
  o_root :: string
  o_isBuild :: bool
  o_isProduction :: bool
  o_ssrTarget :: "string option"
  o_ssrNoExternal :: bool
  o_asSrc :: bool
  o_tryPrefix :: "string option"
  o_skipPackageJson :: bool
  o_preferRelative :: bool
  o_isRequire :: "bool option"
  o_isFromTsImporter :: bool
  o_tryEsmOnly :: bool
  o_scan :: bool
  o_shouldExternalize :: "(string \<Rightarrow> bool) option"

text \<open>
  \<open>o_ssrTarget\<close> and \<open>o_ssrNoExternal\<close> are the two components of \<open>ssrConfig\<close> the plugin
  reads: the target, and whether \<open>noExternal\<close> is exactly \<open>true\<close>. Optional flags are
  booleans, an absent flag being false; \<open>isRequire\<close> keeps its three values, since the
  orchestrator fills it in only when the plugin's options leave it out.
\<close>

record exports_options =
  eo_browser :: bool
  eo_require :: "bool option"
  eo_conditions :: "string list"

section \<open>The environment\<close>

text \<open>The filesystem and the process, as \<open>node:fs\<close> and \<open>process.cwd\<close> show them.\<close>

record fsys =
  isFileReadable :: "string \<Rightarrow> bool"
  isDirectory :: "string \<Rightarrow> bool"
  realpathSync :: "string \<Rightarrow> string"
  readFileSync :: "string \<Rightarrow> string"
  existsSync :: "string \<Rightarrow> bool"
  cwd :: string

text \<open>
  The helpers and regular expressions the resolver imports from \<open>../utils\<close> and
  \<open>../constants\<close>. They are parameters of the model.
\<close>

record utils =
  cleanUrl :: "string \<Rightarrow> string"
  normalizePath :: "string \<Rightarrow> string"
  ensureVolumeInPath :: "string \<Rightarrow> string"
  fsPathFromId :: "string \<Rightarrow> string"
  slash :: "string \<Rightarrow> string"
  injectQuery :: "string \<Rightarrow> string \<Rightarrow> string"
  isBuiltin :: "string \<Rightarrow> bool"
  isDataUrl :: "string \<Rightarrow> bool"
  isExternalUrl :: "string \<Rightarrow> bool"
  isTsRequest :: "string \<Rightarrow> bool"
  isPossibleTsOutput :: "string \<Rightarrow> bool"
  getPotentialTsSrcPaths :: "string \<Rightarrow> string list"
  bareImportRE :: "string \<Rightarrow> bool"
  DEP_VERSION_RE :: "string \<Rightarrow> bool"
  OPTIMIZABLE_ENTRY_RE :: "string \<Rightarrow> bool"
  SPECIAL_QUERY_RE :: "string \<Rightarrow> bool"

text \<open>
  The manifest loader (\<open>../packages\<close>), node-style \<open>resolveFrom\<close>, and the \<open>resolve\<close>
  function of the library \<open>resolve.exports\<close>.
\<close>

record packages =
  loadPackageData :: "string \<Rightarrow> bool \<Rightarrow> jserror + PackageData"
  resolvePackageData :: "string \<Rightarrow> string \<Rightarrow> bool \<Rightarrow> PackageData option"
  nestedResolveFrom :: "string \<Rightarrow> string \<Rightarrow> bool \<Rightarrow> string"
  resolveFrom :: "string \<Rightarrow> string \<Rightarrow> jserror + string"
  resolveExportsLib :: "pkg_data \<Rightarrow> string \<Rightarrow> exports_options \<Rightarrow> jserror + string option"

record OptimizedDepInfo =
  dep_id :: string
  dep_file :: string
  dep_src :: "string option"
  dep_browserHash :: "string option"

record DepOptimizationMetadata =
  browserHash :: string
  depInfoList :: "OptimizedDepInfo list"

record DepsOptimizer =
  metadata :: "bool \<Rightarrow> DepOptimizationMetadata option"
  isOptimizedDepUrl :: "string \<Rightarrow> bool"
  isOptimizedDepFile :: "string \<Rightarrow> bool"
  getOptimizedDepId :: "OptimizedDepInfo \<Rightarrow> string"
  registerMissingImport :: "string \<Rightarrow> string \<Rightarrow> bool \<Rightarrow> OptimizedDepInfo"
  exclude :: "string list option"
  optimizedDepInfoFromId :: "DepOptimizationMetadata \<Rightarrow> string \<Rightarrow> OptimizedDepInfo option"
  optimizedDepInfoFromFile :: "DepOptimizationMetadata \<Rightarrow> string \<Rightarrow> OptimizedDepInfo option"

text \<open>
  \<open>e_moduleLang\<close> is what the plugin host answers for
  \<open>this.getModuleInfo(importer)?.meta?.vite?.lang\<close>, and \<open>e_depsOptimizer\<close> what
  \<open>resolveOptions.getDepsOptimizer?.()\<close> returns.
\<close>

record env =
  e_fs :: fsys
  e_ut :: utils
  e_pk :: packages
  e_moduleLang :: "string \<Rightarrow> string option"
  e_depsOptimizer :: "DepsOptimizer option"

text \<open>
  The mutable state of the plugin: \<open>idToPkgMap\<close>, and the handles the manifest loader
  keeps in its cache, by package directory, with the resolved-caches they have
  accumulated.
\<close>

record rstate =
  idToPkgMap :: "string \<rightharpoonup> PackageData"
  packageCache :: "string \<rightharpoonup> PackageData"

text \<open>The result of \<open>resolveId\<close>: \<open>undefined\<close>, \<open>null\<close>, an id, or a structured record.\<close>

record PartialResolvedId =
  res_id :: string
  res_external :: bool
  res_moduleSideEffects :: "bool option"

datatype resolve_result = Undefined | Null | IdString string | Resolved PartialResolvedId

text \<open>Modelled from the spec: the constants of \<open>../constants\<close> whose values it gives.\<close>

definition FS_PREFIX :: string where
  "FS_PREFIX = ''/@fs/''"

definition DEFAULT_EXTENSIONS :: "string list" where
  "DEFAULT_EXTENSIONS = [''.mjs'', ''.js'', ''.mts'', ''.ts'', ''.jsx'', ''.tsx'', ''.json'']"

definition DEFAULT_MAIN_FIELDS :: "string list" where
  "DEFAULT_MAIN_FIELDS = [''module'', ''jsnext:main'', ''jsnext'']"

definition browserExternalId :: string where
  "browserExternalId = ''__vite-browser-external''"

section \<open>splitFileAndPostfix\<close>

definition splitFileAndPostfix :: "string \<Rightarrow> string \<times> string" where
  "splitFileAndPostfix path =
     (let postfixIndex = indexOf path CHR ''?'';
          postfixIndex = (if postfixIndex < 0 then indexOf path CHR ''#'' else postfixIndex)
      in if postfixIndex > 0
         then (slice path 0 postfixIndex, sliceFrom path postfixIndex)
         else (path, ''''))"

text \<open>
  The postfix as the specification words it: everything from the first \<open>?\<close> or \<open>#\<close>,
  whichever appears first, inclusive.
\<close>

definition spec_postfix :: "string \<Rightarrow> string" where
  "spec_postfix s = dropWhile (\<lambda>c. c \<noteq> CHR ''?'' \<and> c \<noteq> CHR ''#'') s"

section \<open>Leaf helpers of the resolver\<close>

definition getRealPath :: "env \<Rightarrow> string \<Rightarrow> bool \<Rightarrow> string" where
  "getRealPath ev resolved preserveSymlinks =
     (let resolved1 = ensureVolumeInPath (e_ut ev) resolved;
          resolved2 = (if \<not> preserveSymlinks \<and> browserExternalId \<noteq> resolved1
                       then realpathSync (e_fs ev) resolved1 else resolved1)
      in normalizePath (e_ut ev) resolved2)"

definition equalWithoutSuffix :: "string \<Rightarrow> string \<Rightarrow> string \<Rightarrow> bool" where
  "equalWithoutSuffix path key suffix =
     (endsWith key suffix \<and> slice key 0 (- int (length suffix)) = path)"

text \<open>
  \<open>mapWithBrowserField\<close> returns \<open>map[key]\<close> for the first key that matches: a string, or
  \<open>false\<close> (\<open>Externalized\<close>); \<open>None\<close> is \<open>undefined\<close>.
\<close>

fun mapWithBrowserFieldLoop :: "string \<Rightarrow> (string \<times> browser_value) list \<Rightarrow> browser_value option"
  where
  "mapWithBrowserFieldLoop normalizedPath [] = None"
| "mapWithBrowserFieldLoop normalizedPath ((key, v) # rest) =
     (let normalizedKey = posixNormalize key
      in if normalizedPath = normalizedKey
            \<or> equalWithoutSuffix normalizedPath normalizedKey ''.js''
            \<or> equalWithoutSuffix normalizedPath normalizedKey ''/index.js''
         then Some v
         else mapWithBrowserFieldLoop normalizedPath rest)"

definition mapWithBrowserField :: "string \<Rightarrow> (string \<times> browser_value) list \<Rightarrow> browser_value option"
  where
  "mapWithBrowserField relativePathInPkgDir m =
     mapWithBrowserFieldLoop (posixNormalize relativePathInPkgDir) m"

text \<open>\<open>mapped || fallback\<close> for a result of \<open>mapWithBrowserField\<close>.\<close>

definition mappedOr :: "browser_value option \<Rightarrow> string \<Rightarrow> string" where
  "mappedOr mapped fallback =
     (case mapped of Some (Mapped s) \<Rightarrow> (if s \<noteq> [] then s else fallback) | _ \<Rightarrow> fallback)"

definition resolveExports ::
  "env \<Rightarrow> pkg_data \<Rightarrow> string \<Rightarrow> InternalResolveOptions \<Rightarrow> bool \<Rightarrow> jserror + string option" where
  "resolveExports ev pkg key options targetWeb =
     (let conditions = [if o_isProduction options then ''production'' else ''development''];
          conditions = (if o_isRequire options \<noteq> Some True then conditions @ [''module'']
                        else conditions);
          conditions = (case o_conditions options of Some cs \<Rightarrow> conditions @ cs | None \<Rightarrow> conditions)
      in resolveExportsLib (e_pk ev) pkg key
           \<lparr>eo_browser = targetWeb, eo_require = o_isRequire options, eo_conditions = conditions\<rparr>)"

definition packageEntryFailure :: "string \<Rightarrow> string option \<Rightarrow> jserror" where
  "packageEntryFailure pid details =
     Error None
       (''Failed to resolve entry for package \"'' @ pid @ ''\". ''
        @ ''The package may have incorrect main/module/exports specified in its package.json''
        @ (if truthy details then '': '' @ the details else ''.''))"

text \<open>\<open>!entryPoint || entryPoint.endsWith('.mjs')\<close>.\<close>

definition unsetOrMjs :: "string option \<Rightarrow> bool" where
  "unsetOrMjs entryPoint =
     (case entryPoint of None \<Rightarrow> True | Some s \<Rightarrow> s = [] \<or> endsWith s ''.mjs'')"

text \<open>
  \<open>typeof data.browser === 'string' ? data.browser : isObject(data.browser) && data.browser['.']\<close>,
  as far as its truthiness and its string value go: \<open>None\<close> stands for every falsy value.
\<close>

definition browserEntryOf :: "pkg_data \<Rightarrow> string option" where
  "browserEntryOf d =
     (case d_browser d of
        Some (BrowserString s) \<Rightarrow> (if s \<noteq> [] then Some s else None)
      | Some (BrowserMap m) \<Rightarrow>
          (case map_of m ''.'' of Some (Mapped s) \<Rightarrow> (if s \<noteq> [] then Some s else None) | _ \<Rightarrow> None)
      | None \<Rightarrow> None)"

text \<open>The content sniff of the browser entry: hints of UMD or CommonJS.\<close>

definition looksLikeUmd :: "string \<Rightarrow> bool" where
  "looksLikeUmd content =
     ((testSpaced ''typeof exports'' ''=='' content \<and> testSpaced ''typeof module'' ''=='' content)
      \<or> testSpaced ''module.exports'' ''='' content)"

fun firstStringField :: "pkg_data \<Rightarrow> string list \<Rightarrow> string option" where
  "firstStringField d [] = None"
| "firstStringField d (field # rest) =
     (case dataString d field of Some s \<Rightarrow> Some s | None \<Rightarrow> firstStringField d rest)"

text \<open>
  The walk over the main fields: the first string-valued field replaces the entry point,
  and the entry point stays when there is none.
\<close>

definition mainFieldsStep :: "pkg_data \<Rightarrow> InternalResolveOptions \<Rightarrow> string option \<Rightarrow> string option"
  where
  "mainFieldsStep d options entryPoint =
     (if unsetOrMjs entryPoint
      then (case firstStringField d
                   (case o_mainFields options of Some mf \<Rightarrow> mf | None \<Rightarrow> DEFAULT_MAIN_FIELDS) of
              Some s \<Rightarrow> Some s
            | None \<Rightarrow> entryPoint)
      else entryPoint)"

definition isSassEntry :: "InternalResolveOptions \<Rightarrow> string \<Rightarrow> bool" where
  "isSassEntry options entry =
     ((case o_mainFields options of Some (f # rest) \<Rightarrow> f = ''sass'' | _ \<Rightarrow> False)
      \<and> \<not> (case o_extensions options of Some exts \<Rightarrow> extname entry \<in> set exts | None \<Rightarrow> False))"

text \<open>
  A sequence of attempts \<open>if ((res = attempt())) return res\<close>: the first truthy result is
  returned, a throw or a divergence ends the sequence, and \<open>undefined\<close> is the result when
  every attempt is falsy. Each attempt sees the options as the attempts before it left them.
\<close>

fun firstTruthy ::
  "('s \<Rightarrow> string option outcome \<times> 's) list \<Rightarrow> 's \<Rightarrow> string option outcome \<times> 's" where
  "firstTruthy [] s = (Return None, s)"
| "firstTruthy (attempt # attempts) s =
     (case attempt s of
        (Return r, s1) \<Rightarrow> if truthy r then (Return r, s1) else firstTruthy attempts s1
      | (Throw e, s1) \<Rightarrow> (Throw e, s1)
      | (Diverge, s1) \<Rightarrow> (Diverge, s1))"

section \<open>The filesystem probe and the entry-point resolver\<close>

text \<open>
  \<open>tryFsResolve\<close>, \<open>tryResolveFile\<close> and \<open>resolvePackageEntry\<close> call each other, and nothing
  bounds the depth of the calls (a manifest whose \<open>main\<close> is \<open>.\<close> sends the entry-point
  resolver back to its own directory). Each body is written once, over the functions it
  calls; \<open>probe\<close> then ties the three together by recursion on the fuel, the number of
  nested calls still allowed. The options are returned with every result, since
  \<open>resolvePackageEntry\<close> may set \<open>skipPackageJson\<close> on them.
\<close>

type_synonym probe_result = "string option outcome \<times> InternalResolveOptions"

type_synonym fsResolveFn =
  "string \<Rightarrow> InternalResolveOptions \<Rightarrow> bool \<Rightarrow> bool \<Rightarrow> probe_result"

type_synonym resolveFileFn =
  "string \<Rightarrow> string \<Rightarrow> InternalResolveOptions \<Rightarrow> bool \<Rightarrow> bool \<Rightarrow> string option \<Rightarrow> bool
    \<Rightarrow> probe_result"

type_synonym packageEntryFn =
  "string \<Rightarrow> PackageData \<Rightarrow> bool \<Rightarrow> InternalResolveOptions
    \<Rightarrow> string option outcome \<times> PackageData \<times> InternalResolveOptions"

text \<open>
  The attempts of \<open>tryFsResolve\<close>, in order. \<open>withPostfix\<close> is the attempt guarded by
  \<open>postfix &&\<close>, on the path with its postfix left in.
\<close>

definition fsAttempts ::
  "resolveFileFn \<Rightarrow> string \<Rightarrow> string \<Rightarrow> string \<Rightarrow> string list \<Rightarrow> bool \<Rightarrow> bool
    \<Rightarrow> (InternalResolveOptions \<Rightarrow> probe_result) list" where
  "fsAttempts tryResolveFile' fsPath file postfix exts tryIndex targetWeb =
     (let withPostfix = (\<lambda>path idx opts.
            if postfix \<noteq> []
            then tryResolveFile' path [] opts idx targetWeb
                   (o_tryPrefix opts) (o_skipPackageJson opts)
            else (Return None, opts));
          withoutPostfix = (\<lambda>path idx opts.
            tryResolveFile' path postfix opts idx targetWeb
              (o_tryPrefix opts) (o_skipPackageJson opts))
      in [withPostfix fsPath False, withoutPostfix file False]
         @ concat (map (\<lambda>ext. [withPostfix (fsPath @ ext) False, withoutPostfix (file @ ext) False])
                     exts)
         @ [withPostfix fsPath tryIndex, withoutPostfix file tryIndex])"

definition tryFsResolveBody :: "resolveFileFn \<Rightarrow> fsResolveFn" where
  "tryFsResolveBody tryResolveFile' fsPath options tryIndex targetWeb =
     (let (file, postfix) = splitFileAndPostfix fsPath
      in firstTruthy
           (fsAttempts tryResolveFile' fsPath file postfix
              (case o_extensions options of Some exts \<Rightarrow> exts | None \<Rightarrow> DEFAULT_EXTENSIONS)
              tryIndex targetWeb)
           options)"

text \<open>
  The tail of \<open>tryResolveFile\<close>, reached when the file is no readable regular file and the
  directory branch has returned nothing: the TypeScript source candidates, or else the
  retry with the prefix.
\<close>

text \<open>\<open>`${path.dirname(file)}/${tryPrefix}${path.basename(file)}`\<close>.\<close>

definition prefixedPath :: "string \<Rightarrow> string \<Rightarrow> string" where
  "prefixedPath file tryPrefix = dirname file @ ''/'' @ tryPrefix @ basename file"

definition tsOrPrefix ::
  "env \<Rightarrow> resolveFileFn \<Rightarrow> string \<Rightarrow> string \<Rightarrow> bool \<Rightarrow> bool \<Rightarrow> string option \<Rightarrow> bool
    \<Rightarrow> InternalResolveOptions \<Rightarrow> probe_result" where
  "tsOrPrefix ev tryResolveFile' file postfix tryIndex targetWeb tryPrefix skipPackageJson options =
     (if o_isFromTsImporter options \<and> isPossibleTsOutput (e_ut ev) file
      then firstTruthy
             (map (\<lambda>srcPath opts.
                     tryResolveFile' srcPath postfix opts tryIndex targetWeb tryPrefix skipPackageJson)
                (getPotentialTsSrcPaths (e_ut ev) file))
             options
      else if truthy tryPrefix
      then tryResolveFile' (prefixedPath file (the tryPrefix))
             postfix options tryIndex targetWeb None False
      else (Return None, options))"

text \<open>\<open>const index = tryFsResolve(file + '/index', options); if (index) return index + postfix\<close>.\<close>

definition indexOrElse ::
  "fsResolveFn \<Rightarrow> string \<Rightarrow> string \<Rightarrow> (InternalResolveOptions \<Rightarrow> probe_result)
    \<Rightarrow> InternalResolveOptions \<Rightarrow> probe_result" where
  "indexOrElse tryFsResolve' file postfix orElse options =
     (case tryFsResolve' (file @ ''/index'') options True True of
        (Return index, opts1) \<Rightarrow>
          if truthy index then (Return (Some (the index @ postfix)), opts1) else orElse opts1
      | (Throw e, opts1) \<Rightarrow> (Throw e, opts1)
      | (Diverge, opts1) \<Rightarrow> (Diverge, opts1))"

definition tryResolveFileBody ::
  "env \<Rightarrow> fsResolveFn \<Rightarrow> resolveFileFn \<Rightarrow> packageEntryFn \<Rightarrow> resolveFileFn" where
  "tryResolveFileBody ev tryFsResolve' tryResolveFile' resolvePackageEntry'
       file postfix options tryIndex targetWeb tryPrefix skipPackageJson =
     (let orElse = tsOrPrefix ev tryResolveFile' file postfix tryIndex targetWeb
                     tryPrefix skipPackageJson
      in if isFileReadable (e_fs ev) file \<and> \<not> isDirectory (e_fs ev) file
         then (Return (Some (getRealPath ev file (o_preserveSymlinks options) @ postfix)), options)
         else if isFileReadable (e_fs ev) file \<and> tryIndex
         then if \<not> skipPackageJson
              then (case loadPackageData (e_pk ev) (file @ ''/package.json'')
                           (o_preserveSymlinks options) of
                      Inl e \<Rightarrow>
                        if err_code e \<noteq> Some ''ENOENT'' then (Throw e, options)
                        else indexOrElse tryFsResolve' file postfix orElse options
                    | Inr pkg \<Rightarrow>
                        (case resolvePackageEntry' file pkg targetWeb options of
                           (Return resolved, pkg1, opts1) \<Rightarrow> (Return resolved, opts1)
                         | (Throw e, pkg1, opts1) \<Rightarrow>
                             if err_code e \<noteq> Some ''ENOENT'' then (Throw e, opts1)
                             else indexOrElse tryFsResolve' file postfix orElse opts1
                         | (Diverge, pkg1, opts1) \<Rightarrow> (Diverge, opts1)))
              else indexOrElse tryFsResolve' file postfix orElse options
         else orElse options)"

text \<open>
  The browser step of the entry-point selection, entered when \<open>targetWeb\<close> holds and the
  entry point is unset or ends with \<open>.mjs\<close>.
\<close>

definition browserStep ::
  "env \<Rightarrow> fsResolveFn \<Rightarrow> PackageData \<Rightarrow> string option \<Rightarrow> InternalResolveOptions
    \<Rightarrow> probe_result" where
  "browserStep ev tryFsResolve' pkg entryPoint options =
     (case browserEntryOf (data pkg) of
        None \<Rightarrow> (Return entryPoint, options)
      | Some browserEntry \<Rightarrow>
          if o_isRequire options \<noteq> Some True \<and> d_module (data pkg) \<noteq> None
             \<and> d_module (data pkg) \<noteq> Some browserEntry
          then (case tryFsResolve' (pathJoin (dir pkg) browserEntry) options True True of
                  (Return resolvedBrowserEntry, opts1) \<Rightarrow>
                    if truthy resolvedBrowserEntry
                       \<and> looksLikeUmd (readFileSync (e_fs ev) (the resolvedBrowserEntry))
                    then (Return (d_module (data pkg)), opts1)
                    else (Return entryPoint, opts1)
                | (Throw e, opts1) \<Rightarrow> (Throw e, opts1)
                | (Diverge, opts1) \<Rightarrow> (Diverge, opts1))
          else (Return (Some browserEntry), options))"

text \<open>The body of the loop over the entry points, up to the probe of the entry.\<close>

definition entryAttempt ::
  "fsResolveFn \<Rightarrow> PackageData \<Rightarrow> bool \<Rightarrow> string \<Rightarrow> InternalResolveOptions \<Rightarrow> probe_result" where
  "entryAttempt tryFsResolve' pkg targetWeb entry options =
     (let sass = isSassEntry options entry;
          entry1 = (if sass then [] else entry);
          options1 = (if sass then options\<lparr>o_skipPackageJson := True\<rparr> else options);
          entry2 = (case d_browser (data pkg) of
                      Some (BrowserMap m) \<Rightarrow>
                        if targetWeb then mappedOr (mapWithBrowserField entry1 m) entry1
                        else entry1
                    | _ \<Rightarrow> entry1)
      in tryFsResolve' (pathJoin (dir pkg) entry2) options1 True True)"

definition entryPointsOf :: "pkg_data \<Rightarrow> InternalResolveOptions \<Rightarrow> string option \<Rightarrow> string list"
  where
  "entryPointsOf d options entryPoint =
     (let entryPoint1 = mainFieldsStep d options entryPoint;
          entryPoint2 = (if truthy entryPoint1 then entryPoint1 else d_main d)
      in if truthy entryPoint2 then [the entryPoint2]
         else [''index.js'', ''index.json'', ''index.node''])"

definition resolvePackageEntryBody :: "env \<Rightarrow> fsResolveFn \<Rightarrow> packageEntryFn" where
  "resolvePackageEntryBody ev tryFsResolve' pid pkg targetWeb options =
     (if truthy (getResolvedCache pkg ''.'' targetWeb)
      then (Return (getResolvedCache pkg ''.'' targetWeb), pkg, options)
      else
        case (if (case d_exports (data pkg) of Some x \<Rightarrow> jsonTruthy x | None \<Rightarrow> False)
              then resolveExports ev (data pkg) ''.'' options targetWeb
              else Inr None) of
          Inl e \<Rightarrow> (Throw (packageEntryFailure pid (Some (err_message e))), pkg, options)
        | Inr entryPoint0 \<Rightarrow>
           (case (if targetWeb \<and> unsetOrMjs entryPoint0
                  then browserStep ev tryFsResolve' pkg entryPoint0 options
                  else (Return entryPoint0, options)) of
              (Throw e, opts1) \<Rightarrow>
                (Throw (packageEntryFailure pid (Some (err_message e))), pkg, opts1)
            | (Diverge, opts1) \<Rightarrow> (Diverge, pkg, opts1)
            | (Return entryPoint1, opts1) \<Rightarrow>
               (case firstTruthy
                       (map (entryAttempt tryFsResolve' pkg targetWeb)
                          (entryPointsOf (data pkg) opts1 entryPoint1))
                       opts1 of
                  (Return resolvedEntryPoint, opts2) \<Rightarrow>
                    if truthy resolvedEntryPoint
                    then (Return resolvedEntryPoint,
                          setResolvedCache pkg ''.'' (the resolvedEntryPoint) targetWeb, opts2)
                    else (Throw (packageEntryFailure pid None), pkg, opts2)
                | (Throw e, opts2) \<Rightarrow>
                    (Throw (packageEntryFailure pid (Some (err_message e))), pkg, opts2)
                | (Diverge, opts2) \<Rightarrow> (Diverge, pkg, opts2))))"

primrec probe :: "env \<Rightarrow> nat \<Rightarrow> fsResolveFn \<times> resolveFileFn \<times> packageEntryFn" where
  "probe ev 0 =
     ((\<lambda>fsPath options tryIndex targetWeb. (Diverge, options)),
      (\<lambda>file postfix options tryIndex targetWeb tryPrefix skipPackageJson. (Diverge, options)),
      (\<lambda>pid pkg targetWeb options. (Diverge, pkg, options)))"
| "probe ev (Suc n) =
     (case probe ev n of
        (tryFsResolve', tryResolveFile', resolvePackageEntry') \<Rightarrow>
          (tryFsResolveBody tryResolveFile',
           tryResolveFileBody ev tryFsResolve' tryResolveFile' resolvePackageEntry',
           resolvePackageEntryBody ev tryFsResolve'))"

definition tryFsResolve :: "env \<Rightarrow> nat \<Rightarrow> fsResolveFn" where
  "tryFsResolve ev n = fst (probe ev n)"

definition tryResolveFile :: "env \<Rightarrow> nat \<Rightarrow> resolveFileFn" where
  "tryResolveFile ev n = fst (snd (probe ev n))"

definition resolvePackageEntry :: "env \<Rightarrow> nat \<Rightarrow> packageEntryFn" where
  "resolvePackageEntry ev n = snd (snd (probe ev n))"

section \<open>Deep imports and browser mapping\<close>

definition subpathNotDefined :: "string option \<Rightarrow> string \<Rightarrow> jserror" where
  "subpathNotDefined relativeId pkgDir =
     Error None
       (''Package subpath '' @ [CHR 0x27] @ templateString relativeId @ [CHR 0x27]
        @ '' is not defined by \"exports\" in '' @ pathJoin pkgDir ''package.json'' @ ''.'')"

text \<open>
  The last step of \<open>resolveDeepImport\<close>: \<open>if (relativeId) { ... tryFsResolve ... }\<close>, with
  \<open>undefined\<close> as the result when nothing is found.
\<close>

definition probeDeepImport ::
  "env \<Rightarrow> nat \<Rightarrow> string \<Rightarrow> PackageData \<Rightarrow> bool \<Rightarrow> InternalResolveOptions \<Rightarrow> string option
    \<Rightarrow> bool \<Rightarrow> string option outcome \<times> PackageData \<times> InternalResolveOptions" where
  "probeDeepImport ev n rid pkg targetWeb options relativeId tryIndex =
     (if truthy relativeId
      then (case tryFsResolve ev n (pathJoin (dir pkg) (the relativeId)) options tryIndex targetWeb of
              (Return resolved, opts1) \<Rightarrow>
                if truthy resolved
                then (Return resolved, setResolvedCache pkg rid (the resolved) targetWeb, opts1)
                else (Return None, pkg, opts1)
            | (Throw e, opts1) \<Rightarrow> (Throw e, pkg, opts1)
            | (Diverge, opts1) \<Rightarrow> (Diverge, pkg, opts1))
      else (Return None, pkg, options))"

definition resolveDeepImport ::
  "env \<Rightarrow> nat \<Rightarrow> string \<Rightarrow> PackageData \<Rightarrow> bool \<Rightarrow> InternalResolveOptions
    \<Rightarrow> string option outcome \<times> PackageData \<times> InternalResolveOptions" where
  "resolveDeepImport ev n rid pkg targetWeb options =
     (if truthy (getResolvedCache pkg rid targetWeb)
      then (Return (getResolvedCache pkg rid targetWeb), pkg, options)
      else
        let (file, postfix) = splitFileAndPostfix rid
        in if (case d_exports (data pkg) of Some x \<Rightarrow> jsonTruthy x | None \<Rightarrow> False)
           then (case (if isObject (the (d_exports (data pkg)))
                       then (case resolveExports ev (data pkg) file options targetWeb of
                               Inl e \<Rightarrow> Inl e
                             | Inr None \<Rightarrow> Inr None
                             | Inr (Some exportsId) \<Rightarrow> Inr (Some (exportsId @ postfix)))
                       else Inr None) of
                   Inl e \<Rightarrow> (Throw e, pkg, options)
                 | Inr relativeId \<Rightarrow>
                     if \<not> truthy relativeId
                     then (Throw (subpathNotDefined relativeId (dir pkg)), pkg, options)
                     else probeDeepImport ev n rid pkg targetWeb options relativeId False)
           else (case (if targetWeb then d_browser (data pkg) else None) of
                   Some (BrowserMap m) \<Rightarrow>
                     (case mapWithBrowserField file m of
                        Some Externalized \<Rightarrow>
                          (Return (Some browserExternalId),
                           pkg\<lparr>webResolvedImports := (webResolvedImports pkg)(rid \<mapsto> browserExternalId)\<rparr>,
                           options)
                      | Some (Mapped mapped) \<Rightarrow>
                          probeDeepImport ev n rid pkg targetWeb options
                            (Some (if mapped \<noteq> [] then mapped @ postfix else rid)) True
                      | None \<Rightarrow> probeDeepImport ev n rid pkg targetWeb options (Some rid) True)
                 | _ \<Rightarrow> probeDeepImport ev n rid pkg targetWeb options (Some rid) True))"

definition tryResolveBrowserMapping ::
  "env \<Rightarrow> nat \<Rightarrow> rstate \<Rightarrow> string \<Rightarrow> string option \<Rightarrow> InternalResolveOptions \<Rightarrow> bool \<Rightarrow> bool
    \<Rightarrow> resolve_result outcome \<times> rstate \<times> InternalResolveOptions" where
  "tryResolveBrowserMapping ev n st rid importer options isFilePath externalize =
     (case (if truthy importer then idToPkgMap st (the importer) else None) of
        None \<Rightarrow> (Return Undefined, st, options)
      | Some pkg \<Rightarrow>
          (case d_browser (data pkg) of
             Some (BrowserMap m) \<Rightarrow>
               (let mapId = (if isFilePath
                             then ''./'' @ slash (e_ut ev) (pathRelative (cwd (e_fs ev)) (dir pkg) rid)
                             else rid)
                in case mapWithBrowserField mapId m of
                     Some Externalized \<Rightarrow> (Return (IdString browserExternalId), st, options)
                   | Some (Mapped browserMappedPath) \<Rightarrow>
                       if browserMappedPath \<noteq> []
                       then (case tryFsResolve ev n (pathJoin (dir pkg) browserMappedPath)
                                    options True True of
                               (Return res, opts1) \<Rightarrow>
                                 if truthy res
                                 then (Return (Resolved
                                         \<lparr>res_id = the res, res_external = externalize,
                                          res_moduleSideEffects = Some (hasSideEffects pkg (the res))\<rparr>),
                                       st\<lparr>idToPkgMap := (idToPkgMap st)(the res \<mapsto> pkg)\<rparr>, opts1)
                                 else (Return Undefined, st, opts1)
                             | (Throw e, opts1) \<Rightarrow> (Throw e, st, opts1)
                             | (Diverge, opts1) \<Rightarrow> (Diverge, st, opts1))
                       else (Return Undefined, st, options)
                   | None \<Rightarrow> (Return Undefined, st, options))
           | _ \<Rightarrow> (Return Undefined, st, options)))"

section \<open>Bare imports\<close>

text \<open>
  The specifier is split at its last \<open>>\<close>: \<open>foo > bar > baz\<close> gives the nested root
  \<open>foo > bar\<close> and the nested path \<open>baz\<close>.
\<close>

definition nestedRootOf :: "string \<Rightarrow> string" where
  "nestedRootOf rid = trim (substring rid 0 (lastIndexOf rid CHR ''>''))"

definition nestedPathOf :: "string \<Rightarrow> string" where
  "nestedPathOf rid = trim (substringFrom rid (lastIndexOf rid CHR ''>'' + 1))"

text \<open>
  The loop that collects the candidate package ids. \<open>start\<close> is \<open>prevSlashIndex + 1\<close>: the
  loop begins with \<open>prevSlashIndex = -1\<close> and sets it to \<open>slashIndex\<close> in every round.
\<close>

function possiblePkgIdsLoop :: "string \<Rightarrow> nat \<Rightarrow> string list \<Rightarrow> string list" where
  "possiblePkgIdsLoop nestedPath start possiblePkgIds =
     (let found = indexOfFrom nestedPath CHR ''/'' (int start);
          slashIndex = (if found < 0 then int (length nestedPath) else found);
          part = slice nestedPath (int start) slashIndex
      in if part = [] then possiblePkgIds
         else if (if possiblePkgIds \<noteq> [] then extname part \<noteq> [] else hd part = CHR ''@'')
         then possiblePkgIdsLoop nestedPath (nat slashIndex + 1) possiblePkgIds
         else possiblePkgIdsLoop nestedPath (nat slashIndex + 1)
                (possiblePkgIds @ [slice nestedPath 0 slashIndex]))"
  by pat_completeness auto
termination
  apply (relation "measure (\<lambda>(p, start, ids). length p + 1 - start)")
    apply (auto simp: slice_def clampIndex_def indexOfFrom_def Let_def min_def split: if_splits)
  done

definition possiblePkgIdsOf :: "string \<Rightarrow> string list" where
  "possiblePkgIdsOf rid = possiblePkgIdsLoop (nestedPathOf rid) 0 []"

definition chooseBasedir ::
  "env \<Rightarrow> InternalResolveOptions \<Rightarrow> string option \<Rightarrow> string list \<Rightarrow> string \<Rightarrow> string" where
  "chooseBasedir ev options importer possiblePkgIds nestedRoot =
     (let basedir =
            (if (case o_dedupe options of
                   Some dedupe \<Rightarrow> list_ex (\<lambda>x. x \<in> set possiblePkgIds) dedupe
                 | None \<Rightarrow> False)
             then o_root options
             else if truthy importer \<and> isAbsolute (the importer)
                     \<and> existsSync (e_fs ev) (cleanUrl (e_ut ev) (the importer))
             then dirname (the importer)
             else o_root options)
      in if nestedRoot \<noteq> []
         then nestedResolveFrom (e_pk ev) nestedRoot basedir (o_preserveSymlinks options)
         else basedir)"

text \<open>
  \<open>possiblePkgIds.reverse().find(...)\<close>: the first candidate, longest first, for which the
  manifest resolver returns a package.
\<close>

fun findPackage ::
  "env \<Rightarrow> string \<Rightarrow> bool \<Rightarrow> string list \<Rightarrow> (string \<times> PackageData) option" where
  "findPackage ev basedir preserveSymlinks [] = None"
| "findPackage ev basedir preserveSymlinks (pkgId # pkgIds) =
     (case resolvePackageData (e_pk ev) pkgId basedir preserveSymlinks of
        Some pkg \<Rightarrow> Some (pkgId, pkg)
      | None \<Rightarrow> findPackage ev basedir preserveSymlinks pkgIds)"

text \<open>
  Modelled from the spec: the manifest resolver returns a cached handle, so the
  resolved-caches a package has accumulated are seen by the next resolution. The handles
  in use are kept in \<open>packageCache\<close> by package directory.
\<close>

definition currentHandle :: "rstate \<Rightarrow> PackageData \<Rightarrow> PackageData" where
  "currentHandle st pkg = (case packageCache st (dir pkg) of Some p \<Rightarrow> p | None \<Rightarrow> pkg)"

definition storeHandle :: "rstate \<Rightarrow> PackageData \<Rightarrow> rstate" where
  "storeHandle st pkg = st\<lparr>packageCache := (packageCache st)(dir pkg \<mapsto> pkg)\<rparr>"

text \<open>
  The call of \<open>resolvePackageEntry\<close> or \<open>resolveDeepImport\<close> inside \<open>tryNodeResolve\<close>, with
  the retry under \<open>tryEsmOnly\<close>. The retry runs on a copy of the options, so what it sets on
  them is lost.
\<close>

definition resolveInPackage ::
  "env \<Rightarrow> nat \<Rightarrow> bool \<Rightarrow> string \<Rightarrow> PackageData \<Rightarrow> bool \<Rightarrow> InternalResolveOptions
    \<Rightarrow> string option outcome \<times> PackageData \<times> InternalResolveOptions" where
  "resolveInPackage ev n isDeepImport unresolvedId pkg targetWeb options =
     (let resolveFn = (if isDeepImport then resolveDeepImport ev n else resolvePackageEntry ev n);
          retry = (\<lambda>pkg1 opts1.
            case resolveFn unresolvedId pkg1 targetWeb
                   (opts1\<lparr>o_isRequire := Some False, o_mainFields := Some DEFAULT_MAIN_FIELDS,
                          o_extensions := Some DEFAULT_EXTENSIONS\<rparr>) of
              (r, pkg2, opts2) \<Rightarrow> (r, pkg2, opts1))
      in case resolveFn unresolvedId pkg targetWeb options of
           (Return resolved, pkg1, opts1) \<Rightarrow>
             if \<not> truthy resolved \<and> o_tryEsmOnly opts1 then retry pkg1 opts1
             else (Return resolved, pkg1, opts1)
         | (Throw e, pkg1, opts1) \<Rightarrow>
             if \<not> o_tryEsmOnly opts1 then (Throw e, pkg1, opts1) else retry pkg1 opts1
         | (Diverge, pkg1, opts1) \<Rightarrow> (Diverge, pkg1, opts1))"

text \<open>The regular expression \<open>/(.js|.mjs|.cjs)$/\<close>, whose dots match any character but a line end.\<close>

definition endsWithAnyThen :: "string \<Rightarrow> string \<Rightarrow> bool" where
  "endsWithAnyThen s suffix =
     (length suffix < length s \<and> endsWith s suffix
      \<and> s ! (length s - length suffix - 1) \<notin> {CHR 0x0A, CHR 0x0D})"

definition matchesJsExtension :: "string \<Rightarrow> bool" where
  "matchesJsExtension s =
     (endsWithAnyThen s ''js'' \<or> endsWithAnyThen s ''mjs'' \<or> endsWithAnyThen s ''cjs'')"

definition processResult ::
  "string \<Rightarrow> bool \<Rightarrow> bool \<Rightarrow> PackageData \<Rightarrow> PartialResolvedId \<Rightarrow> PartialResolvedId option" where
  "processResult rid externalize isDeepImport pkg resolved =
     (if \<not> externalize then Some resolved
      else
        let resolvedExt = extname (res_id resolved)
        in if isDeepImport \<and> resolvedExt \<noteq> [] \<and> \<not> matchesJsExtension (res_id resolved)
           then None
           else
             let resolvedId =
                   (if isDeepImport
                       \<and> \<not> (case d_exports (data pkg) of Some x \<Rightarrow> jsonTruthy x | None \<Rightarrow> False)
                       \<and> extname rid \<noteq> resolvedExt
                    then rid @ resolvedExt else rid)
             in Some (resolved\<lparr>res_id := resolvedId, res_external := True\<rparr>))"

text \<open>
  The hand-off to the optimizer, reached for a dependency under \<open>node_modules\<close> when an
  optimizer is present and the resolver is not scanning.
\<close>

definition optimizeOrVersion ::
  "env \<Rightarrow> DepsOptimizer \<Rightarrow> InternalResolveOptions \<Rightarrow> string \<Rightarrow> string option \<Rightarrow> bool \<Rightarrow> string
    \<Rightarrow> string \<Rightarrow> string \<Rightarrow> string outcome" where
  "optimizeOrVersion ev depsOptimizer options rid importer ssr pkgId nestedPath resolved =
     (let isJsType = OPTIMIZABLE_ENTRY_RE (e_ut ev) resolved
      in if \<not> isJsType
            \<or> (case importer of Some i \<Rightarrow> strIncludes i ''node_modules'' | None \<Rightarrow> False)
            \<or> (case exclude depsOptimizer of
                  Some ex \<Rightarrow> pkgId \<in> set ex \<or> nestedPath \<in> set ex
                | None \<Rightarrow> False)
            \<or> SPECIAL_QUERY_RE (e_ut ev) resolved
            \<or> (\<not> o_isBuild options \<and> ssr)
         then if \<not> o_isBuild options
              then (case metadata depsOptimizer ssr of
                      None \<Rightarrow> Throw (Error None ''TypeError: metadata is undefined'')
                    | Some md \<Rightarrow>
                        if browserHash md \<noteq> [] \<and> isJsType
                        then Return (injectQuery (e_ut ev) resolved (''v='' @ browserHash md))
                        else Return resolved)
              else Return resolved
         else Return (getOptimizedDepId depsOptimizer
                        (registerMissingImport depsOptimizer rid resolved ssr)))"

definition tryNodeResolve ::
  "env \<Rightarrow> nat \<Rightarrow> rstate \<Rightarrow> string \<Rightarrow> string option \<Rightarrow> InternalResolveOptions \<Rightarrow> bool
    \<Rightarrow> DepsOptimizer option \<Rightarrow> bool \<Rightarrow> bool
    \<Rightarrow> PartialResolvedId option outcome \<times> rstate \<times> InternalResolveOptions" where
  "tryNodeResolve ev n st rid importer options targetWeb depsOptimizer ssr externalize =
     (let nestedRoot = nestedRootOf rid;
          nestedPath = nestedPathOf rid;
          possiblePkgIds = possiblePkgIdsLoop nestedPath 0 [];
          basedir = chooseBasedir ev options importer possiblePkgIds nestedRoot
      in case findPackage ev basedir (o_preserveSymlinks options) (rev possiblePkgIds) of
           None \<Rightarrow> (Return None, st, options)
         | Some (pkgId, pkg0) \<Rightarrow>
            (let isDeepImport = (pkgId \<noteq> nestedPath);
                 unresolvedId = (if isDeepImport
                                 then ''.'' @ sliceFrom nestedPath (int (length pkgId))
                                 else pkgId)
             in case resolveInPackage ev n isDeepImport unresolvedId (currentHandle st pkg0)
                       targetWeb options of
                  (Throw e, pkg, opts1) \<Rightarrow> (Throw e, storeHandle st pkg, opts1)
                | (Diverge, pkg, opts1) \<Rightarrow> (Diverge, storeHandle st pkg, opts1)
                | (Return resolved0, pkg, opts1) \<Rightarrow>
                   if \<not> truthy resolved0 then (Return None, storeHandle st pkg, opts1)
                   else
                     let resolved = the resolved0;
                         st1 = (storeHandle st pkg)
                                 \<lparr>idToPkgMap := (idToPkgMap st)(resolved \<mapsto> pkg)\<rparr>
                     in if (o_isBuild opts1 \<and> depsOptimizer = None) \<or> externalize
                        then (Return (processResult rid externalize isDeepImport pkg
                                        \<lparr>res_id = resolved, res_external = False,
                                         res_moduleSideEffects = Some (hasSideEffects pkg resolved)\<rparr>),
                              st1, opts1)
                        else if \<not> strIncludes resolved ''node_modules'' \<or> depsOptimizer = None
                                \<or> o_scan opts1
                        then (Return (Some \<lparr>res_id = resolved, res_external = False,
                                             res_moduleSideEffects = None\<rparr>), st1, opts1)
                        else (case optimizeOrVersion ev (the depsOptimizer) opts1 rid importer ssr
                                     pkgId nestedPath resolved of
                                Throw e \<Rightarrow> (Throw e, st1, opts1)
                              | Diverge \<Rightarrow> (Diverge, st1, opts1)
                              | Return resolved1 \<Rightarrow>
                                  (Return (Some \<lparr>res_id = resolved1, res_external = False,
                                                 res_moduleSideEffects =
                                                   (if o_isBuild opts1
                                                    then Some (hasSideEffects pkg resolved1)
                                                    else None)\<rparr>),
                                   st1, opts1))))"

section \<open>Optimized dependencies\<close>

text \<open>
  The loop of \<open>tryOptimizedResolve\<close> over \<open>metadata.depInfoList\<close>; \<open>resolvedSrc\<close> is
  computed at the first candidate and kept. A failure of \<open>resolveFrom\<close> ends the loop.
\<close>

fun nestedDepSearch ::
  "env \<Rightarrow> DepsOptimizer \<Rightarrow> string \<Rightarrow> string \<Rightarrow> string option \<Rightarrow> OptimizedDepInfo list
    \<Rightarrow> string option" where
  "nestedDepSearch ev depsOptimizer rid importer resolvedSrc [] = None"
| "nestedDepSearch ev depsOptimizer rid importer resolvedSrc (optimizedData # rest) =
     (if \<not> truthy (dep_src optimizedData)
      then nestedDepSearch ev depsOptimizer rid importer resolvedSrc rest
      else if \<not> endsWith (dep_id optimizedData) rid
      then nestedDepSearch ev depsOptimizer rid importer resolvedSrc rest
      else
        case (case resolvedSrc of
                Some src \<Rightarrow> Inr src
              | None \<Rightarrow>
                  (case resolveFrom (e_pk ev) rid (dirname importer) of
                     Inl e \<Rightarrow> Inl e
                   | Inr p \<Rightarrow> Inr (normalizePath (e_ut ev) p))) of
          Inl e \<Rightarrow> None
        | Inr src \<Rightarrow>
            if dep_src optimizedData = Some src
            then Some (getOptimizedDepId depsOptimizer optimizedData)
            else nestedDepSearch ev depsOptimizer rid importer (Some src) rest)"

text \<open>
  \<open>await depsOptimizer.scanProcessing\<close> only delays the call; the optimizer is read as it
  stands afterwards.
\<close>

definition tryOptimizedResolve ::
  "env \<Rightarrow> DepsOptimizer \<Rightarrow> bool \<Rightarrow> string \<Rightarrow> string option \<Rightarrow> string option" where
  "tryOptimizedResolve ev depsOptimizer ssr rid importer =
     (case metadata depsOptimizer ssr of
        None \<Rightarrow> None
      | Some md \<Rightarrow>
          (case optimizedDepInfoFromId depsOptimizer md rid of
             Some depInfo \<Rightarrow> Some (getOptimizedDepId depsOptimizer depInfo)
           | None \<Rightarrow>
               if \<not> truthy importer then None
               else nestedDepSearch ev depsOptimizer rid (the importer) None (depInfoList md)))"

section \<open>The dispatch orchestrator\<close>

text \<open>
  What \<open>resolveId\<close> reads of its third argument: \<open>ssr === true\<close>, \<open>scan\<close>, and
  \<open>custom['node-resolve'].isRequire\<close>.
\<close>

record resolve_opts =
  ro_ssr :: bool
  ro_scan :: "bool option"
  ro_isRequire :: "bool option"

text \<open>
  A step of the orchestrator either settles the call (\<open>Some\<close>: it returns, throws or
  diverges) or falls through to the next step (\<open>None\<close>); either way it hands on the state
  and the options as it leaves them.
\<close>

type_synonym step_result =
  "resolve_result outcome option \<times> rstate \<times> InternalResolveOptions"

definition orStep ::
  "step_result \<Rightarrow> (rstate \<Rightarrow> InternalResolveOptions \<Rightarrow> resolve_result outcome \<times> rstate)
    \<Rightarrow> resolve_result outcome \<times> rstate" where
  "orStep r k = (case r of (Some x, st, options) \<Rightarrow> (x, st) | (None, st, options) \<Rightarrow> k st options)"

text \<open>\<open>if ((res = tryFsResolve(fsPath, options))) return res\<close>, as a step.\<close>

definition fsStep ::
  "env \<Rightarrow> nat \<Rightarrow> rstate \<Rightarrow> InternalResolveOptions \<Rightarrow> string \<Rightarrow> step_result" where
  "fsStep ev n st options fsPath =
     (case tryFsResolve ev n fsPath options True True of
        (Return res, opts1) \<Rightarrow>
          if truthy res then (Some (Return (IdString (the res))), st, opts1) else (None, st, opts1)
      | (Throw e, opts1) \<Rightarrow> (Some (Throw e), st, opts1)
      | (Diverge, opts1) \<Rightarrow> (Some Diverge, st, opts1))"

definition perCallOptions ::
  "env \<Rightarrow> InternalResolveOptions \<Rightarrow> string option \<Rightarrow> resolve_opts \<Rightarrow> InternalResolveOptions" where
  "perCallOptions ev resolveOptions importer resolveOpts =
     (let options = resolveOptions
            \<lparr>o_isRequire := (case o_isRequire resolveOptions of
                               Some b \<Rightarrow> Some b
                             | None \<Rightarrow> Some (case ro_isRequire resolveOpts of Some b \<Rightarrow> b | None \<Rightarrow> False)),
             o_scan := (case ro_scan resolveOpts of Some b \<Rightarrow> b | None \<Rightarrow> o_scan resolveOptions)\<rparr>
      in if truthy importer
         then options
                \<lparr>o_isFromTsImporter :=
                   (if isTsRequest (e_ut ev) (the importer) then True
                    else (case e_moduleLang ev (the importer) of
                            Some moduleLang \<Rightarrow>
                              moduleLang \<noteq> [] \<and> isTsRequest (e_ut ev) (''.'' @ moduleLang)
                          | None \<Rightarrow> False))\<rparr>
         else options)"

text \<open>Step 4: a request for a pre-bundled dependency.\<close>

definition optimizedDepUrlPath :: "env \<Rightarrow> InternalResolveOptions \<Rightarrow> string \<Rightarrow> string" where
  "optimizedDepUrlPath ev options rid =
     (if startsWith rid FS_PREFIX then fsPathFromId (e_ut ev) rid
      else normalizePath (e_ut ev)
             (ensureVolumeInPath (e_ut ev)
                (pathResolve (cwd (e_fs ev)) (o_root options) (sliceFrom rid 1))))"

text \<open>Step 5: an explicit filesystem path \<open>/@fs/*\<close>; it always settles the call.\<close>

definition fsPrefixStep ::
  "env \<Rightarrow> nat \<Rightarrow> rstate \<Rightarrow> InternalResolveOptions \<Rightarrow> string \<Rightarrow> resolve_result outcome \<times> rstate"
  where
  "fsPrefixStep ev n st options rid =
     (let fsPath = fsPathFromId (e_ut ev) rid
      in case tryFsResolve ev n fsPath options True True of
           (Return res, opts1) \<Rightarrow>
             (Return (IdString (if truthy res then the res else fsPath)), st)
         | (Throw e, opts1) \<Rightarrow> (Throw e, st)
         | (Diverge, opts1) \<Rightarrow> (Diverge, st))"

text \<open>Step 7, first part: the resolved path is a file of the optimizer.\<close>

definition optimizedDepFileId :: "env \<Rightarrow> DepsOptimizer \<Rightarrow> bool \<Rightarrow> string \<Rightarrow> resolve_result outcome"
  where
  "optimizedDepFileId ev depsOptimizer ssr normalizedFsPath =
     (if \<not> DEP_VERSION_RE (e_ut ev) normalizedFsPath
      then (case metadata depsOptimizer ssr of
              None \<Rightarrow> Throw (Error None ''TypeError: metadata is undefined'')
            | Some md \<Rightarrow>
                (case optimizedDepInfoFromFile depsOptimizer md normalizedFsPath of
                   Some info \<Rightarrow>
                     if truthy (dep_browserHash info)
                     then Return (IdString (injectQuery (e_ut ev) normalizedFsPath
                                              (''v='' @ the (dep_browserHash info))))
                     else Return (IdString normalizedFsPath)
                 | None \<Rightarrow> Return (IdString normalizedFsPath)))
      else Return (IdString normalizedFsPath))"

text \<open>Step 7, second part: a direct import from \<open>node_modules\<close>, re-entered as a bare import.\<close>

definition nodeModulesStep ::
  "env \<Rightarrow> nat \<Rightarrow> rstate \<Rightarrow> InternalResolveOptions \<Rightarrow> string option \<Rightarrow> bool \<Rightarrow> bool
    \<Rightarrow> string \<Rightarrow> string \<Rightarrow> step_result" where
  "nodeModulesStep ev n st options importer targetWeb ssr basedir normalizedFsPath =
     (let pathFromBasedir = sliceFrom normalizedFsPath (int (length basedir))
      in if startsWith pathFromBasedir ''/node_modules/''
         then (case tryNodeResolve ev n st
                      (sliceFrom pathFromBasedir (int (length ''/node_modules/'')))
                      importer options targetWeb (e_depsOptimizer ev) ssr False of
                 (Return (Some res), st1, opts1) \<Rightarrow>
                   if startsWith (res_id res) normalizedFsPath
                   then (Some (Return (Resolved res)), st1, opts1)
                   else (None, st1, opts1)
               | (Return None, st1, opts1) \<Rightarrow> (None, st1, opts1)
               | (Throw e, st1, opts1) \<Rightarrow> (Some (Throw e), st1, opts1)
               | (Diverge, st1, opts1) \<Rightarrow> (Some Diverge, st1, opts1))
         else (None, st, options))"

text \<open>\<open>if (targetWeb && (res = tryResolveBrowserMapping(...))) return res\<close>, as a step.\<close>

definition browserMappingStep ::
  "env \<Rightarrow> nat \<Rightarrow> rstate \<Rightarrow> InternalResolveOptions \<Rightarrow> string \<Rightarrow> string option \<Rightarrow> bool \<Rightarrow> bool
    \<Rightarrow> bool \<Rightarrow> step_result" where
  "browserMappingStep ev n st options rid importer targetWeb isFilePath externalize =
     (if targetWeb
      then (case tryResolveBrowserMapping ev n st rid importer options isFilePath externalize of
              (Return Undefined, st1, opts1) \<Rightarrow> (None, st1, opts1)
            | (Return res, st1, opts1) \<Rightarrow> (Some (Return res), st1, opts1)
            | (Throw e, st1, opts1) \<Rightarrow> (Some (Throw e), st1, opts1)
            | (Diverge, st1, opts1) \<Rightarrow> (Some Diverge, st1, opts1))
      else (None, st, options))"

text \<open>Step 7, last part: the probe of the path, with the side effects of the importer's package.\<close>

definition relativeFsStep ::
  "env \<Rightarrow> nat \<Rightarrow> rstate \<Rightarrow> InternalResolveOptions \<Rightarrow> string option \<Rightarrow> string \<Rightarrow> step_result"
  where
  "relativeFsStep ev n st options importer fsPath =
     (case tryFsResolve ev n fsPath options True True of
        (Return res0, opts1) \<Rightarrow>
          if truthy res0
          then (let res = the res0
                in case (case importer of Some i \<Rightarrow> idToPkgMap st i | None \<Rightarrow> None) of
                     Some pkg \<Rightarrow>
                       (Some (Return (Resolved
                                \<lparr>res_id = res, res_external = False,
                                 res_moduleSideEffects = Some (hasSideEffects pkg res)\<rparr>)),
                        st\<lparr>idToPkgMap := (idToPkgMap st)(res \<mapsto> pkg)\<rparr>, opts1)
                   | None \<Rightarrow> (Some (Return (IdString res)), st, opts1))
          else (None, st, opts1)
      | (Throw e, opts1) \<Rightarrow> (Some (Throw e), st, opts1)
      | (Diverge, opts1) \<Rightarrow> (Some Diverge, st, opts1))"

definition isRelativeSpecifier :: "InternalResolveOptions \<Rightarrow> string \<Rightarrow> string option \<Rightarrow> bool" where
  "isRelativeSpecifier options rid importer =
     (startsWith rid ''.''
      \<or> (o_preferRelative options \<and> rid \<noteq> [] \<and> isWordChar (hd rid))
      \<or> (case importer of Some i \<Rightarrow> endsWith i ''.html'' | None \<Rightarrow> False))"

definition relativeStep ::
  "env \<Rightarrow> nat \<Rightarrow> rstate \<Rightarrow> InternalResolveOptions \<Rightarrow> string \<Rightarrow> string option \<Rightarrow> bool \<Rightarrow> bool
    \<Rightarrow> step_result" where
  "relativeStep ev n st options rid importer targetWeb ssr =
     (if isRelativeSpecifier options rid importer
      then
        let basedir = (if truthy importer then dirname (the importer) else cwd (e_fs ev));
            fsPath = pathResolve (cwd (e_fs ev)) basedir rid;
            normalizedFsPath = normalizePath (e_ut ev) fsPath
        in if (case e_depsOptimizer ev of
                 Some depsOptimizer \<Rightarrow> isOptimizedDepFile depsOptimizer normalizedFsPath
               | None \<Rightarrow> False)
           then (Some (optimizedDepFileId ev (the (e_depsOptimizer ev)) ssr normalizedFsPath),
                 st, options)
           else
             case nodeModulesStep ev n st options importer targetWeb ssr basedir normalizedFsPath of
               (Some r, st1, opts1) \<Rightarrow> (Some r, st1, opts1)
             | (None, st1, opts1) \<Rightarrow>
                 (case browserMappingStep ev n st1 opts1 fsPath importer targetWeb True False of
                    (Some r, st2, opts2) \<Rightarrow> (Some r, st2, opts2)
                  | (None, st2, opts2) \<Rightarrow> relativeFsStep ev n st2 opts2 importer fsPath)
      else (None, st, options))"

text \<open>Step 11e: a Node built-in that nothing before has resolved.\<close>

definition builtinMessage :: "env \<Rightarrow> string \<Rightarrow> string option \<Rightarrow> string" where
  "builtinMessage ev rid importer =
     ''Cannot bundle Node.js built-in \"'' @ rid @ ''\"''
     @ (if truthy importer
        then '' imported from \"'' @ pathRelative (cwd (e_fs ev)) (cwd (e_fs ev)) (the importer) @ ''\"''
        else [])
     @ ''. Consider disabling ssr.noExternal or remove the built-in dependency.''"

definition builtinResult ::
  "env \<Rightarrow> InternalResolveOptions \<Rightarrow> string \<Rightarrow> string option \<Rightarrow> bool \<Rightarrow> resolve_result outcome"
  where
  "builtinResult ev options rid importer ssr =
     (if ssr
      then if o_ssrNoExternal options
           then Throw (Error None (builtinMessage ev rid importer))
           else Return (Resolved \<lparr>res_id = rid, res_external = True, res_moduleSideEffects = None\<rparr>)
      else Return (IdString (if o_isProduction options then browserExternalId
                             else browserExternalId @ '':'' @ rid)))"

text \<open>\<open>if ((res = tryNodeResolve(...))) return res\<close>, as a step.\<close>

definition nodeResolveStep ::
  "env \<Rightarrow> nat \<Rightarrow> rstate \<Rightarrow> InternalResolveOptions \<Rightarrow> string \<Rightarrow> string option \<Rightarrow> bool \<Rightarrow> bool
    \<Rightarrow> bool \<Rightarrow> step_result" where
  "nodeResolveStep ev n st options rid importer targetWeb ssr externalize =
     (case tryNodeResolve ev n st rid importer options targetWeb (e_depsOptimizer ev) ssr
             externalize of
        (Return (Some res), st1, opts1) \<Rightarrow> (Some (Return (Resolved res)), st1, opts1)
      | (Return None, st1, opts1) \<Rightarrow> (None, st1, opts1)
      | (Throw e, st1, opts1) \<Rightarrow> (Some (Throw e), st1, opts1)
      | (Diverge, st1, opts1) \<Rightarrow> (Some Diverge, st1, opts1))"

definition optimizedStep ::
  "env \<Rightarrow> rstate \<Rightarrow> InternalResolveOptions \<Rightarrow> string \<Rightarrow> string option \<Rightarrow> bool \<Rightarrow> bool
    \<Rightarrow> step_result" where
  "optimizedStep ev st options rid importer ssr externalize =
     (if \<not> externalize \<and> o_asSrc options \<and> e_depsOptimizer ev \<noteq> None \<and> \<not> o_scan options
      then (let res = tryOptimizedResolve ev (the (e_depsOptimizer ev)) ssr rid importer
            in if truthy res then (Some (Return (IdString (the res))), st, options)
               else (None, st, options))
      else (None, st, options))"

definition bareStep ::
  "env \<Rightarrow> nat \<Rightarrow> rstate \<Rightarrow> InternalResolveOptions \<Rightarrow> string \<Rightarrow> string option \<Rightarrow> bool \<Rightarrow> bool
    \<Rightarrow> resolve_result outcome \<times> rstate" where
  "bareStep ev n st options rid importer targetWeb ssr =
     (if bareImportRE (e_ut ev) rid
      then
        let externalize = (case o_shouldExternalize options of Some f \<Rightarrow> f rid | None \<Rightarrow> False)
        in orStep (optimizedStep ev st options rid importer ssr externalize)
             (\<lambda>st1 opts1.
                orStep (browserMappingStep ev n st1 opts1 rid importer targetWeb False externalize)
                  (\<lambda>st2 opts2.
                     orStep (nodeResolveStep ev n st2 opts2 rid importer targetWeb ssr externalize)
                       (\<lambda>st3 opts3.
                          if isBuiltin (e_ut ev) rid
                          then (builtinResult ev opts3 rid importer ssr, st3)
                          else (Return Undefined, st3))))
      else (Return Undefined, st))"

text \<open>
  \<open>resolveId\<close> of the plugin that \<open>resolvePlugin(resolveOptions)\<close> builds. The fuel is
  handed to every probe the call makes.
\<close>

definition resolveId ::
  "env \<Rightarrow> nat \<Rightarrow> InternalResolveOptions \<Rightarrow> rstate \<Rightarrow> string \<Rightarrow> string option \<Rightarrow> resolve_opts
    \<Rightarrow> resolve_result outcome \<times> rstate" where
  "resolveId ev n resolveOptions st rid importer resolveOpts =
     (let ssr = ro_ssr resolveOpts
      in if startsWith rid browserExternalId then (Return (IdString rid), st)
         else if strIncludes rid ''?commonjs'' \<or> rid = ''commonjsHelpers.js''
         then (Return Undefined, st)
         else
           let targetWeb = (\<not> ssr \<or> o_ssrTarget resolveOptions = Some ''webworker'');
               options = perCallOptions ev resolveOptions importer resolveOpts;
               asSrc = o_asSrc resolveOptions
           in if asSrc \<and> (case e_depsOptimizer ev of
                             Some depsOptimizer \<Rightarrow> isOptimizedDepUrl depsOptimizer rid
                           | None \<Rightarrow> False)
              then (Return (IdString (optimizedDepUrlPath ev resolveOptions rid)), st)
              else if asSrc \<and> startsWith rid FS_PREFIX
              then fsPrefixStep ev n st options rid
              else
                orStep (if asSrc \<and> startsWith rid ''/''
                        then fsStep ev n st options
                               (pathResolve (cwd (e_fs ev)) (o_root resolveOptions) (sliceFrom rid 1))
                        else (None, st, options))
                  (\<lambda>st1 opts1.
                     orStep (relativeStep ev n st1 opts1 rid importer targetWeb ssr)
                       (\<lambda>st2 opts2.
                          orStep (if isAbsolute rid then fsStep ev n st2 opts2 rid
                                  else (None, st2, opts2))
                            (\<lambda>st3 opts3.
                               if isExternalUrl (e_ut ev) rid
                               then (Return (Resolved \<lparr>res_id = rid, res_external = True,
                                                       res_moduleSideEffects = None\<rparr>), st3)
                               else if isDataUrl (e_ut ev) rid then (Return Null, st3)
                               else bareStep ev n st3 opts3 rid importer targetWeb ssr))))"

section \<open>A concrete environment\<close>

text \<open>
  Modelled from the spec: the helpers of \<open>../utils\<close> and the regular expressions of
  \<open>../constants\<close>, for a POSIX host, as far as the specification describes them: \<open>cleanUrl\<close>
  strips query and hash, \<open>normalizePath\<close> normalizes separators (on POSIX it is
  \<open>path.posix.normalize\<close>), \<open>ensureVolumeInPath\<close> and \<open>slash\<close> change nothing where paths
  hold no drive letter and no backslash, \<open>fsPathFromId\<close> strips the \<open>/@fs/\<close> prefix and keeps
  the path absolute, \<open>injectQuery\<close> appends the query, and a TypeScript output \<open>.js\<close>,
  \<open>.jsx\<close>, \<open>.mjs\<close>, \<open>.cjs\<close> has the sources \<open>.ts|.tsx\<close>, \<open>.tsx\<close>, \<open>.mts\<close>, \<open>.cts\<close>. The
  concrete environment serves to run the model on explicit inputs; the theorems about the
  resolver hold for every environment.
\<close>

definition posixCleanUrl :: "string \<Rightarrow> string" where
  "posixCleanUrl url = takeWhile (\<lambda>c. c \<noteq> CHR ''?'' \<and> c \<noteq> CHR ''#'') url"

definition posixFsPathFromId :: "string \<Rightarrow> string" where
  "posixFsPathFromId rid =
     (let fsPath = posixNormalize
                     (if startsWith rid FS_PREFIX then sliceFrom rid (int (length FS_PREFIX))
                      else rid)
      in if startsWith fsPath ''/'' then fsPath else ''/'' @ fsPath)"

definition posixInjectQuery :: "string \<Rightarrow> string \<Rightarrow> string" where
  "posixInjectQuery url queryToInject =
     (let pathname = posixCleanUrl url;
          rest = drop (length pathname) url;
          search = takeWhile (\<lambda>c. c \<noteq> CHR ''#'') rest;
          hash = drop (length search) rest
      in pathname @ ''?'' @ queryToInject
         @ (if search \<noteq> [] then ''&'' @ tl search else []) @ hash)"

definition stripExtension :: "string \<Rightarrow> string \<Rightarrow> string" where
  "stripExtension ext s = take (length s - length ext) s"

definition posixTsSrcPaths :: "string \<Rightarrow> string list" where
  "posixTsSrcPaths filePath =
     (if endsWith filePath ''.mjs'' then [stripExtension ''.mjs'' filePath @ ''.mts'']
      else if endsWith filePath ''.cjs'' then [stripExtension ''.cjs'' filePath @ ''.cts'']
      else if endsWith filePath ''.jsx'' then [stripExtension ''.jsx'' filePath @ ''.tsx'']
      else if endsWith filePath ''.js''
      then [stripExtension ''.js'' filePath @ ''.ts'', stripExtension ''.js'' filePath @ ''.tsx'']
      else [])"

definition posixUtils :: utils where
  "posixUtils =
     \<lparr>cleanUrl = posixCleanUrl,
      normalizePath = posixNormalize,
      ensureVolumeInPath = (\<lambda>p. p),
      fsPathFromId = posixFsPathFromId,
      slash = (\<lambda>p. p),
      injectQuery = posixInjectQuery,
      isBuiltin = (\<lambda>s. s \<in> set [''fs'', ''path'', ''os'', ''http'', ''url'', ''util'']),
      isDataUrl = (\<lambda>s. startsWith s ''data:''),
      isExternalUrl =
        (\<lambda>s. startsWith s ''http://'' \<or> startsWith s ''https://'' \<or> startsWith s ''//''),
      isTsRequest =
        (\<lambda>s. list_ex (endsWith (posixCleanUrl s)) [''.ts'', ''.mts'', ''.cts'', ''.tsx'']),
      isPossibleTsOutput =
        (\<lambda>s. list_ex (endsWith (posixCleanUrl s)) [''.js'', ''.mjs'', ''.cjs'', ''.jsx'']),
      getPotentialTsSrcPaths = posixTsSrcPaths,
      bareImportRE =
        (\<lambda>s. case s of
               [] \<Rightarrow> False
             | c # rest \<Rightarrow>
                 (isWordChar c \<or> c = CHR ''@'')
                 \<and> (case rest of [] \<Rightarrow> True | d # rest' \<Rightarrow> d \<noteq> CHR '':'')),
      DEP_VERSION_RE = (\<lambda>s. strIncludes s ''?v='' \<or> strIncludes s ''&v=''),
      OPTIMIZABLE_ENTRY_RE =
        (\<lambda>s. endsWith s ''.js'' \<or> endsWith s ''.mjs'' \<or> endsWith s ''.ts''),
      SPECIAL_QUERY_RE =
        (\<lambda>s. list_ex (strIncludes s) [''?worker'', ''?sharedworker'', ''?raw'', ''?url''])\<rparr>"

text \<open>
  A filesystem given by its regular files (with their content) and its directories, all
  by absolute normalized path and without symbolic links. A path names what its normal
  form names; a trailing slash asks for a directory.
\<close>

definition listedFs :: "(string \<times> string) list \<Rightarrow> string list \<Rightarrow> string \<Rightarrow> fsys" where
  "listedFs files dirs wd =
     (let entry = (\<lambda>p. let q = posixNormalize p
                        in if 1 < length q \<and> last q = CHR ''/'' then butlast q else q);
          isDir = (\<lambda>p. entry p \<in> set dirs);
          isFile = (\<lambda>p. posixNormalize p \<in> set (map fst files))
      in \<lparr>isFileReadable = (\<lambda>p. isAbsolute p \<and> (isFile p \<or> isDir p)),
          isDirectory = isDir,
          realpathSync = posixNormalize,
          readFileSync = (\<lambda>p. case map_of files (posixNormalize p) of Some c \<Rightarrow> c | None \<Rightarrow> []),
          existsSync = (\<lambda>p. isAbsolute p \<and> (isFile p \<or> isDir p)),
          cwd = wd\<rparr>)"

definition freshPackage :: "string \<Rightarrow> pkg_data \<Rightarrow> PackageData" where
  "freshPackage pkgDir d =
     \<lparr>dir = pkgDir, data = d, webResolvedImports = Map.empty, nodeResolvedImports = Map.empty,
      hasSideEffects = (\<lambda>file. True)\<rparr>"

text \<open>
  A stand-in for the \<open>resolve\<close> function of \<open>resolve.exports\<close>: a string \<open>exports\<close>
  answers for \<open>.\<close> only; an object whose first key does not begin with \<open>.\<close> is a set of
  conditions for \<open>.\<close>; otherwise the target is looked up by its subpath key. A target is
  a string, an array of targets (the first that resolves) or an object of conditions (the
  first condition that is allowed). A subpath that is not defined throws \<open>Missing "<subpath>"
  export\<close>, a target without an allowed condition throws \<open>No known conditions\<close>. Keys that
  end in \<open>/\<close> or hold \<open>*\<close> are not interpreted: the subpaths they alone define count as
  missing.
\<close>

primrec exportsTarget :: "string list \<Rightarrow> json \<Rightarrow> string option" where
  "exportsTarget allows JNull = None"
| "exportsTarget allows (JBool b) = None"
| "exportsTarget allows (JNumber n) = None"
| "exportsTarget allows (JString s) = Some s"
| "exportsTarget allows (JArray xs) =
     (case filter truthy (map (exportsTarget allows) xs) of [] \<Rightarrow> None | r # rs \<Rightarrow> r)"
| "exportsTarget allows (JObject kvs) =
     (case filter (\<lambda>kr. fst kr \<in> set allows) (map (map_prod (\<lambda>k. k) (exportsTarget allows)) kvs) of
        [] \<Rightarrow> None
      | kr # krs \<Rightarrow> snd kr)"

definition missingExport :: "pkg_data \<Rightarrow> string \<Rightarrow> jserror" where
  "missingExport d target =
     Error None (''Missing \"'' @ target @ ''\" export in \"''
                 @ templateString (map_of (d_fields d) ''name'') @ ''\" package'')"

definition noKnownConditions :: "pkg_data \<Rightarrow> string \<Rightarrow> jserror" where
  "noKnownConditions d target =
     Error None (''No known conditions for \"'' @ target @ ''\" entry in \"''
                 @ templateString (map_of (d_fields d) ''name'') @ ''\" package'')"

definition flatExports :: "pkg_data \<Rightarrow> string \<Rightarrow> exports_options \<Rightarrow> jserror + string option" where
  "flatExports d key opts =
     (case d_exports d of
        None \<Rightarrow> Inr None
      | Some ex \<Rightarrow>
          if \<not> jsonTruthy ex then Inr None
          else
            let target = (if startsWith key ''.'' then key else ''./'' @ key);
                allows = ''default'' # eo_conditions opts
                         @ [if eo_require opts = Some True then ''require'' else ''import'',
                            if eo_browser opts then ''browser'' else ''node''];
                found = (\<lambda>v. if truthy (exportsTarget allows v) then Inr (exportsTarget allows v)
                              else Inl (noKnownConditions d target));
                single = (if target = ''.'' then found ex else Inl (missingExport d target))
            in case ex of
                 JString s \<Rightarrow> if target = ''.'' then Inr (Some s) else Inl (missingExport d target)
               | JObject [] \<Rightarrow> Inl (missingExport d target)
               | JObject ((k, v) # kvs) \<Rightarrow>
                   if \<not> startsWith k ''.'' then single
                   else (case map_of ((k, v) # kvs) target of
                           Some t \<Rightarrow> if jsonTruthy t then found t else Inl (missingExport d target)
                         | None \<Rightarrow> Inl (missingExport d target))
               | JArray [] \<Rightarrow> Inl (missingExport d target)
               | JArray (x # xs) \<Rightarrow> single
               | _ \<Rightarrow> Inl (missingExport d target))"

text \<open>
  Packages given by directory and manifest: \<open>installed\<close> lists, by package id, the
  packages the manifest resolver finds from any base directory.
\<close>

definition listedPackages ::
  "(string \<times> pkg_data) list \<Rightarrow> (string \<times> string) list \<Rightarrow> packages" where
  "listedPackages manifests installed =
     \<lparr>loadPackageData = (\<lambda>pkgPath preserveSymlinks.
        case map_of manifests (dirname (posixNormalize pkgPath)) of
          Some d \<Rightarrow> Inr (freshPackage (dirname (posixNormalize pkgPath)) d)
        | None \<Rightarrow> Inl (Error (Some ''ENOENT'') ''no such file or directory'')),
      resolvePackageData = (\<lambda>pkgId basedir preserveSymlinks.
        case map_of installed pkgId of
          Some pkgDir \<Rightarrow> map_option (freshPackage pkgDir) (map_of manifests pkgDir)
        | None \<Rightarrow> None),
      nestedResolveFrom = (\<lambda>nestedRoot basedir preserveSymlinks. basedir),
      resolveFrom = (\<lambda>rid basedir. Inl (Error (Some ''MODULE_NOT_FOUND'') ''Cannot find module'')),
      resolveExportsLib = flatExports\<rparr>"

definition plainManifest :: pkg_data where
  "plainManifest =
     \<lparr>d_main = None, d_module = None, d_browser = None, d_exports = None, d_fields = []\<rparr>"

definition defaultOptions :: "string \<Rightarrow> InternalResolveOptions" where
  "defaultOptions root =
     \<lparr>o_mainFields = None, o_conditions = None, o_extensions = None, o_dedupe = None,
      o_preserveSymlinks = False, o_root = root, o_isBuild = False, o_isProduction = False,
      o_ssrTarget = None, o_ssrNoExternal = False, o_asSrc = True, o_tryPrefix = None,
      o_skipPackageJson = False, o_preferRelative = False, o_isRequire = None,
      o_isFromTsImporter = False, o_tryEsmOnly = False, o_scan = False,
      o_shouldExternalize = None\<rparr>"

definition emptyState :: rstate where
  "emptyState = \<lparr>idToPkgMap = Map.empty, packageCache = Map.empty\<rparr>"

definition clientCall :: resolve_opts where
  "clientCall = \<lparr>ro_ssr = False, ro_scan = None, ro_isRequire = None\<rparr>"

definition ssrCall :: resolve_opts where
  "ssrCall = \<lparr>ro_ssr = True, ro_scan = None, ro_isRequire = None\<rparr>"

text \<open>An environment without optimizer and without module metadata from the host.\<close>

definition plainEnv :: "fsys \<Rightarrow> packages \<Rightarrow> env" where
  "plainEnv fsy pks =
     \<lparr>e_fs = fsy, e_ut = posixUtils, e_pk = pks, e_moduleLang = (\<lambda>importer. None),
      e_depsOptimizer = None\<rparr>"

text \<open>Scenario 3 of the specification: package \<open>bar\<close> with \<open>exports: { "./sub": "./lib/sub.js" }\<close>.\<close>

definition barManifest :: pkg_data where
  "barManifest = plainManifest\<lparr>d_exports := Some (JObject [(''./sub'', JString ''./lib/sub.js'')])\<rparr>"

definition barEnv :: env where
  "barEnv =
     plainEnv
       (listedFs [(''/p/node_modules/bar/lib/sub.js'', ''export default 1'')]
          [''/p'', ''/p/node_modules'', ''/p/node_modules/bar'', ''/p/node_modules/bar/lib''] ''/p'')
       (listedPackages [(''/p/node_modules/bar'', barManifest)] [(''bar'', ''/p/node_modules/bar'')])"

text \<open>
  Scenario 2 of the specification: package \<open>foo\<close> with \<open>main\<close>, \<open>module\<close> and \<open>browser\<close>,
  whose browser build assigns \<open>module.exports\<close>.
\<close>

definition fooManifest :: pkg_data where
  "fooManifest =
     plainManifest\<lparr>d_main := Some ''foo.cjs'', d_module := Some ''foo.mjs'',
                    d_browser := Some (BrowserString ''foo.browser.js'')\<rparr>"

definition fooEnv :: env where
  "fooEnv =
     plainEnv
       (listedFs [(''/p/node_modules/foo/foo.cjs'', ''module.exports = x''),
                  (''/p/node_modules/foo/foo.mjs'', ''export default x''),
                  (''/p/node_modules/foo/foo.browser.js'', ''module.exports = x'')]
          [''/p'', ''/p/node_modules'', ''/p/node_modules/foo''] ''/p'')
       (listedPackages [(''/p/node_modules/foo'', fooManifest)] [(''foo'', ''/p/node_modules/foo'')])"

text \<open>
  An optimizer that has pre-bundled \<open>foo\<close> as a nested dependency of \<open>my-lib\<close>, and a
  \<open>resolveFrom\<close> that finds \<open>foo\<close> from the directory of \<open>my-lib\<close>.
\<close>

definition nestedDepInfo :: OptimizedDepInfo where
  "nestedDepInfo =
     \<lparr>dep_id = ''my-lib > foo'', dep_file = ''/p/node_modules/.vite/deps/my-lib___foo.js'',
      dep_src = Some ''/p/node_modules/my-lib/node_modules/foo/index.js'',
      dep_browserHash = Some ''abc''\<rparr>"

text \<open>
  The file name the optimizer gives a dependency: \<open>/\<close> and \<open>:\<close> become \<open>_\<close>, a dot becomes
  \<open>__\<close>, and \<open>>\<close> with the white space around it becomes \<open>___\<close>.
\<close>

fun flattenArrows :: "bool \<Rightarrow> string \<Rightarrow> string \<Rightarrow> string" where
  "flattenArrows afterArrow pending [] = pending"
| "flattenArrows afterArrow pending (c # s) =
     (if c = CHR ''>'' then ''___'' @ flattenArrows True [] s
      else if isSpace c then
        (if afterArrow then flattenArrows True [] s
         else flattenArrows False (pending @ [c]) s)
      else pending @ c # flattenArrows False [] s)"

definition flattenId :: "string \<Rightarrow> string" where
  "flattenId rid =
     flattenArrows False []
       (concat (map (\<lambda>c. if c = CHR ''/'' \<or> c = CHR '':'' then ''_''
                         else if c = CHR ''.'' then ''__'' else [c]) rid))"

definition nestedOptimizer :: DepsOptimizer where
  "nestedOptimizer =
     \<lparr>metadata = (\<lambda>ssr. Some \<lparr>browserHash = ''abc'', depInfoList = [nestedDepInfo]\<rparr>),
      isOptimizedDepUrl = (\<lambda>url. False),
      isOptimizedDepFile = (\<lambda>file. False),
      getOptimizedDepId =
        (\<lambda>info. dep_file info @ ''?v='' @ (case dep_browserHash info of Some h \<Rightarrow> h | None \<Rightarrow> [])),
      registerMissingImport =
        (\<lambda>rid resolved ssr.
           \<lparr>dep_id = rid, dep_file = ''/p/node_modules/.vite/deps/'' @ flattenId rid @ ''.js'',
            dep_src = Some resolved, dep_browserHash = Some ''abc''\<rparr>),
      exclude = None,
      optimizedDepInfoFromId = (\<lambda>md rid. find (\<lambda>info. dep_id info = rid) (depInfoList md)),
      optimizedDepInfoFromFile = (\<lambda>md file. find (\<lambda>info. dep_file info = file) (depInfoList md))\<rparr>"

definition nestedEnv :: env where
  "nestedEnv =
     (plainEnv (listedFs [] [''/p''] ''/p'')
        ((listedPackages [] [])
           \<lparr>resolveFrom := (\<lambda>rid basedir.
              if rid = ''foo'' \<and> basedir = ''/p/node_modules/my-lib''
              then Inr ''/p/node_modules/my-lib/node_modules/foo/index.js''
              else Inl (Error (Some ''MODULE_NOT_FOUND'') ''Cannot find module''))\<rparr>))
       \<lparr>e_depsOptimizer := Some nestedOptimizer\<rparr>"

text \<open>
  A TypeScript project whose importer asks for \<open>./util.js\<close>: neither \<open>util.js\<close> nor a
  TypeScript source of it exists, a partial \<open>_util.js\<close> does. The options carry the prefix
  \<open>_\<close> and the importer is a TypeScript module.
\<close>

definition tsEnv :: env where
  "tsEnv =
     plainEnv (listedFs [(''/p/src/_util.js'', ''export const u = 1'')] [''/p'', ''/p/src''] ''/p'')
       (listedPackages [] [])"

definition tsOptions :: InternalResolveOptions where
  "tsOptions = (defaultOptions ''/p'')\<lparr>o_tryPrefix := Some ''_'', o_isFromTsImporter := True\<rparr>"


definition optimizedFooEnv :: env where
  "optimizedFooEnv = fooEnv\<lparr>e_depsOptimizer := Some nestedOptimizer\<rparr>"

text \<open>Package \<open>bar\<close> with \<open>exports: "./lib/sub.js"\<close>, and with \<open>exports: ["./lib/sub.js"]\<close>.\<close>

definition barStringManifest :: pkg_data where
  "barStringManifest = plainManifest\<lparr>d_exports := Some (JString ''./lib/sub.js'')\<rparr>"

definition barArrayManifest :: pkg_data where
  "barArrayManifest = plainManifest\<lparr>d_exports := Some (JArray [JString ''./lib/sub.js''])\<rparr>"

section \<open>Invariants of the probe\<close>

text \<open>
  The probe changes the options in one field only: \<open>skipPackageJson\<close>, which the
  entry-point resolver sets for Sass-style packages.
\<close>

definition sameButSkip :: "InternalResolveOptions \<Rightarrow> InternalResolveOptions \<Rightarrow> bool" where
  "sameButSkip a b = (a\<lparr>o_skipPackageJson := True\<rparr> = b\<lparr>o_skipPackageJson := True\<rparr>)"

definition fsSame :: "fsResolveFn \<Rightarrow> bool" where
  "fsSame F = (\<forall>p opts ti tw r s'. F p opts ti tw = (r, s') \<longrightarrow> sameButSkip opts s')"

definition fileSame :: "resolveFileFn \<Rightarrow> bool" where
  "fileSame R = (\<forall>fl pf opts ti tw tp sk r s'.
                   R fl pf opts ti tw tp sk = (r, s') \<longrightarrow> sameButSkip opts s')"

definition entrySame :: "packageEntryFn \<Rightarrow> bool" where
  "entrySame P = (\<forall>pid pkg tw opts r pkg' s'.
                    P pid pkg tw opts = (r, pkg', s') \<longrightarrow> sameButSkip opts s')"

section \<open>The shape of resolved ids\<close>

text \<open>
  A resolved id is \<open>good\<close> when it is the browser-external sentinel, or an absolute path in
  normal form followed by a postfix: nothing, or a query or hash that begins with \<open>?\<close> or
  \<open>#\<close>. A path is in normal form when \<open>path.normalize\<close> leaves it unchanged.
\<close>

definition isPostfix :: "string \<Rightarrow> bool" where
  "isPostfix postfix = (postfix = [] \<or> hd postfix = CHR ''?'' \<or> hd postfix = CHR ''#'')"

definition absoluteNormalized :: "string \<Rightarrow> bool" where
  "absoluteNormalized p = (isAbsolute p \<and> posixNormalize p = p)"

definition pathWithPostfix :: "string \<Rightarrow> bool" where
  "pathWithPostfix x =
     list_ex (\<lambda>k. absoluteNormalized (take k x) \<and> isPostfix (drop k x)) [0..<Suc (length x)]"

definition goodId :: "string \<Rightarrow> bool" where
  "goodId x = (x = browserExternalId \<or> pathWithPostfix x)"

text \<open>
  What the resolver takes for granted of its surroundings. The working directory is
  absolute; the real path of an absolute path is absolute and in normal form; the
  TypeScript sources of an absolute path are absolute; a package handle has an absolute
  directory, and the ids in its caches are of the shape \<open>P\<close> (for a handle that
  \<open>loadPackageData\<close> returns, the entry cached under \<open>.\<close> is a path with postfix; for a handle
  that \<open>resolvePackageData\<close> returns or the state holds, every cached id is good). Of an
  optimizer, in the two
  places where \<open>tryNodeResolve\<close> lets it rewrite an id: the id it gives the import it has
  just registered is good, and the version query \<open>v=<browserHash>\<close> injected into a path
  with postfix gives a good id.
\<close>

definition wfPkg :: "(string \<Rightarrow> bool) \<Rightarrow> PackageData \<Rightarrow> bool" where
  "wfPkg P pkg =
     (isAbsolute (dir pkg)
      \<and> (\<forall>key v. webResolvedImports pkg key = Some v \<longrightarrow> P v)
      \<and> (\<forall>key v. nodeResolvedImports pkg key = Some v \<longrightarrow> P v))"

text \<open>
  A package handle as the probe needs it when it enters a directory: the directory is
  absolute, and an entry cached under \<open>.\<close> is a path with postfix.
\<close>

definition wfEntryCache :: "PackageData \<Rightarrow> bool" where
  "wfEntryCache pkg =
     (isAbsolute (dir pkg)
      \<and> (\<forall>v. webResolvedImports pkg ''.'' = Some v \<longrightarrow> pathWithPostfix v)
      \<and> (\<forall>v. nodeResolvedImports pkg ''.'' = Some v \<longrightarrow> pathWithPostfix v))"

definition wfEnv :: "env \<Rightarrow> bool" where
  "wfEnv ev =
     (isAbsolute (cwd (e_fs ev))
      \<and> (\<forall>p preserveSymlinks.
            isAbsolute p \<longrightarrow> absoluteNormalized (getRealPath ev p preserveSymlinks))
      \<and> (\<forall>p. isAbsolute p \<longrightarrow> (\<forall>src \<in> set (getPotentialTsSrcPaths (e_ut ev) p). isAbsolute src))
      \<and> (\<forall>pkgPath preserveSymlinks pkg.
            loadPackageData (e_pk ev) pkgPath preserveSymlinks = Inr pkg
              \<longrightarrow> wfEntryCache pkg)
      \<and> (\<forall>pkgId basedir preserveSymlinks pkg.
            resolvePackageData (e_pk ev) pkgId basedir preserveSymlinks = Some pkg
              \<longrightarrow> wfPkg goodId pkg)
      \<and> (case e_depsOptimizer ev of
            None \<Rightarrow> True
          | Some depsOptimizer \<Rightarrow>
              (\<forall>rid resolved ssr.
                 goodId (getOptimizedDepId depsOptimizer
                           (registerMissingImport depsOptimizer rid resolved ssr)))
              \<and> (\<forall>ssr md x.
                    metadata depsOptimizer ssr = Some md \<longrightarrow> pathWithPostfix x
                      \<longrightarrow> goodId (injectQuery (e_ut ev) x (''v='' @ browserHash md)))))"

definition wfState :: "rstate \<Rightarrow> bool" where
  "wfState st =
     ((\<forall>key pkg. idToPkgMap st key = Some pkg \<longrightarrow> wfPkg goodId pkg)
      \<and> (\<forall>key pkg. packageCache st key = Some pkg \<longrightarrow> wfPkg goodId pkg))"

text \<open>The three functions of the probe, as far as the shape of their results goes.\<close>

definition fsGood :: "fsResolveFn \<Rightarrow> bool" where
  "fsGood F =
     (\<forall>p opts ti tw r s'.
        isAbsolute p \<longrightarrow> F p opts ti tw = (Return r, s') \<longrightarrow> truthy r
          \<longrightarrow> pathWithPostfix (the r))"

definition fileGood :: "resolveFileFn \<Rightarrow> bool" where
  "fileGood R =
     (\<forall>fl pf opts ti tw tp sk r s'.
        isAbsolute fl \<longrightarrow> isPostfix pf \<longrightarrow> R fl pf opts ti tw tp sk = (Return r, s') \<longrightarrow> truthy r
          \<longrightarrow> pathWithPostfix (the r))"

definition entryPath :: "packageEntryFn \<Rightarrow> bool" where
  "entryPath E =
     (\<forall>pid pkg tw opts r pkg' s'.
        wfEntryCache pkg \<longrightarrow> E pid pkg tw opts = (Return r, pkg', s') \<longrightarrow> truthy r
          \<longrightarrow> pathWithPostfix (the r))"

definition entryGood :: "(string \<Rightarrow> bool) \<Rightarrow> packageEntryFn \<Rightarrow> bool" where
  "entryGood P E =
     (\<forall>pid pkg tw opts r pkg' s'.
        wfPkg P pkg \<longrightarrow> E pid pkg tw opts = (r, pkg', s')
          \<longrightarrow> wfPkg P pkg' \<and> (\<forall>v. r = Return v \<longrightarrow> truthy v \<longrightarrow> P (the v)))"

text \<open>
  The results of the functions above the probe: the package handle and the state stay
  well-formed, and an id that is returned without \<open>external: true\<close> is good.
\<close>

definition stepGood :: "step_result \<Rightarrow> bool" where
  "stepGood x =
     (case x of
        (r, st, opts) \<Rightarrow>
          wfState st
          \<and> (\<forall>res. r = Some (Return (Resolved res)) \<longrightarrow> \<not> res_external res
                 \<longrightarrow> goodId (res_id res)))"

definition resultGood :: "resolve_result outcome \<times> rstate \<Rightarrow> bool" where
  "resultGood x =
     (wfState (snd x)
      \<and> (\<forall>res. fst x = Return (Resolved res) \<longrightarrow> \<not> res_external res \<longrightarrow> goodId (res_id res)))"

definition packageGood ::
  "string option outcome \<times> PackageData \<times> InternalResolveOptions \<Rightarrow> bool" where
  "packageGood x =
     (case x of
        (r, pkg, opts) \<Rightarrow> wfPkg goodId pkg \<and> (\<forall>v. r = Return v \<longrightarrow> truthy v \<longrightarrow> goodId (the v)))"

definition nodeGood ::
  "PartialResolvedId option outcome \<times> rstate \<times> InternalResolveOptions \<Rightarrow> bool" where
  "nodeGood x =
     (case x of
        (r, st, opts) \<Rightarrow>
          wfState st
          \<and> (\<forall>res. r = Return (Some res) \<longrightarrow> \<not> res_external res \<longrightarrow> goodId (res_id res)))"

definition mappingGood ::
  "resolve_result outcome \<times> rstate \<times> InternalResolveOptions \<Rightarrow> bool" where
  "mappingGood x =
     (case x of
        (r, st, opts) \<Rightarrow>
          wfState st
          \<and> (\<forall>res. r = Return (Resolved res) \<longrightarrow> \<not> res_external res \<longrightarrow> goodId (res_id res)))"

text \<open>A path segment that \<open>path.normalize\<close> keeps.\<close>

definition cleanSegment :: "string \<Rightarrow> bool" where
  "cleanSegment s = (s \<noteq> [] \<and> s \<noteq> ''.'' \<and> s \<noteq> ''..'' \<and> CHR ''/'' \<notin> set s)"

text \<open>
  The segments after the leading slash of an absolute path in normal form: every segment
  is kept by \<open>path.normalize\<close>, but the last may be empty (the path is \<open>/\<close>, or ends in a
  slash).
\<close>

definition normalSegments :: "string list \<Rightarrow> bool" where
  "normalSegments segs =
     (segs \<noteq> [] \<and> (\<forall>s \<in> set (butlast segs). cleanSegment s)
      \<and> (last segs = [] \<or> cleanSegment (last segs)))"

text \<open>
  A directory \<open>d#y\<close> beside a file \<open>d\<close>, in a package at \<open>/p\<close> whose module \<open>/p/main.js\<close>
  an earlier resolution has recorded.
\<close>

definition hashEnv :: env where
  "hashEnv =
     plainEnv
       (listedFs [(''/p/main.js'', ''import x''), (''/p/d'', ''export default 1'')]
          [''/p'', ''/p/d#y''] ''/p'')
       (listedPackages [(''/p'', plainManifest)] [])"

definition hashState :: rstate where
  "hashState = emptyState\<lparr>idToPkgMap := [''/p/main.js'' \<mapsto> freshPackage ''/p'' plainManifest]\<rparr>"

section \<open>Facts about the string primitives\<close>

lemma indexOf_absent: "c \<notin> set s \<Longrightarrow> indexOf s c = - 1"
  by (simp add: indexOf_def indexOfFrom_def)

lemma indexOf_present: "c \<in> set s \<Longrightarrow> indexOf s c = int (length (takeWhile (\<lambda>x. x \<noteq> c) s))"
  by (simp add: indexOf_def indexOfFrom_def)

lemma indexOf_le_length: "indexOf s c \<le> int (length s)"
proof (cases "c \<in> set s")
  case True
  then show ?thesis
    using length_takeWhile_le [of "\<lambda>x. x \<noteq> c" s] by (simp add: indexOf_present)
next
  case False
  then show ?thesis by (simp add: indexOf_absent)
qed

lemma indexOf_pos_iff: "c \<in> set s \<Longrightarrow> (0 < indexOf s c) = (hd s \<noteq> c)"
  by (cases s) (auto simp: indexOf_present)

lemma slice_sliceFrom_append:
  "0 \<le> i \<Longrightarrow> slice s 0 i @ sliceFrom s i = s"
  by (simp add: slice_def sliceFrom_def clampIndex_def min_def)

lemma sliceFrom_indexOf:
  "c \<in> set s \<Longrightarrow> sliceFrom s (indexOf s c) = dropWhile (\<lambda>x. x \<noteq> c) s"
proof -
  assume "c \<in> set s"
  then have "sliceFrom s (indexOf s c) = drop (length (takeWhile (\<lambda>x. x \<noteq> c) s)) s"
    using length_takeWhile_le [of "\<lambda>x. x \<noteq> c" s]
    by (simp add: sliceFrom_def clampIndex_def indexOf_present min_def)
  then show ?thesis by (simp add: dropWhile_eq_drop)
qed

lemma hd_dropWhile_neq: "c \<in> set s \<Longrightarrow> hd (dropWhile (\<lambda>x. x \<noteq> c) s) = c"
  using hd_dropWhile [of "\<lambda>x. x \<noteq> c" s] by (auto simp: dropWhile_eq_Nil_conv)

lemma splitFileAndPostfix_postfix:
  "snd (splitFileAndPostfix s) =
     (if CHR ''?'' \<in> set s
      then (if hd s = CHR ''?'' then [] else dropWhile (\<lambda>c. c \<noteq> CHR ''?'') s)
      else if CHR ''#'' \<in> set s \<and> hd s \<noteq> CHR ''#''
      then dropWhile (\<lambda>c. c \<noteq> CHR ''#'') s
      else [])"
proof (cases "CHR ''?'' \<in> set s")
  case True
  then have "0 \<le> indexOf s CHR ''?''" by (simp add: indexOf_present)
  with True show ?thesis
    by (simp add: splitFileAndPostfix_def Let_def sliceFrom_indexOf indexOf_pos_iff)
next
  case False
  note q = this
  show ?thesis
  proof (cases "CHR ''#'' \<in> set s")
    case True
    with q show ?thesis
      by (simp add: splitFileAndPostfix_def Let_def sliceFrom_indexOf indexOf_pos_iff
          indexOf_absent)
  next
    case False
    with q show ?thesis
      by (simp add: splitFileAndPostfix_def Let_def indexOf_absent)
  qed
qed

lemma splitFileAndPostfix_append:
  "fst (splitFileAndPostfix s) @ snd (splitFileAndPostfix s) = s"
  by (simp add: splitFileAndPostfix_def Let_def slice_sliceFrom_append)

lemma splitFileAndPostfix_head:
  "snd (splitFileAndPostfix s) = [] \<or> hd (snd (splitFileAndPostfix s)) = CHR ''?''
     \<or> hd (snd (splitFileAndPostfix s)) = CHR ''#''"
  by (simp add: splitFileAndPostfix_postfix hd_dropWhile_neq)

section \<open>Unfolding the probe\<close>

lemma tryFsResolve_0: "tryFsResolve ev 0 fsPath options tryIndex targetWeb = (Diverge, options)"
  by (simp add: tryFsResolve_def)

lemma tryResolveFile_0:
  "tryResolveFile ev 0 file postfix options tryIndex targetWeb tryPrefix skipPackageJson
     = (Diverge, options)"
  by (simp add: tryResolveFile_def)

lemma resolvePackageEntry_0:
  "resolvePackageEntry ev 0 pid pkg targetWeb options = (Diverge, pkg, options)"
  by (simp add: resolvePackageEntry_def)

lemma tryFsResolve_Suc:
  "tryFsResolve ev (Suc n) = tryFsResolveBody (tryResolveFile ev n)"
  by (simp add: tryFsResolve_def tryResolveFile_def split: prod.split)

lemma tryResolveFile_Suc:
  "tryResolveFile ev (Suc n) =
     tryResolveFileBody ev (tryFsResolve ev n) (tryResolveFile ev n) (resolvePackageEntry ev n)"
  by (simp add: tryFsResolve_def tryResolveFile_def resolvePackageEntry_def split: prod.split)

lemma resolvePackageEntry_Suc:
  "resolvePackageEntry ev (Suc n) = resolvePackageEntryBody ev (tryFsResolve ev n)"
  by (simp add: tryFsResolve_def resolvePackageEntry_def split: prod.split)

section \<open>The options under the probe\<close>

lemma sameButSkip_refl [simp]: "sameButSkip a a"
  by (simp add: sameButSkip_def)

lemma sameButSkip_trans: "sameButSkip a b \<Longrightarrow> sameButSkip b c \<Longrightarrow> sameButSkip a c"
  by (simp add: sameButSkip_def)

lemma sameButSkip_update [simp]: "sameButSkip a (a\<lparr>o_skipPackageJson := b\<rparr>)"
  by (simp add: sameButSkip_def)

lemma sameButSkip_fields:
  assumes "sameButSkip a b"
  shows "o_mainFields a = o_mainFields b" "o_conditions a = o_conditions b"
    "o_extensions a = o_extensions b" "o_dedupe a = o_dedupe b"
    "o_preserveSymlinks a = o_preserveSymlinks b" "o_root a = o_root b"
    "o_isBuild a = o_isBuild b" "o_isProduction a = o_isProduction b"
    "o_ssrTarget a = o_ssrTarget b" "o_ssrNoExternal a = o_ssrNoExternal b"
    "o_asSrc a = o_asSrc b" "o_tryPrefix a = o_tryPrefix b"
    "o_preferRelative a = o_preferRelative b" "o_isRequire a = o_isRequire b"
    "o_isFromTsImporter a = o_isFromTsImporter b" "o_tryEsmOnly a = o_tryEsmOnly b"
    "o_scan a = o_scan b" "o_shouldExternalize a = o_shouldExternalize b"
proof -
  from assms have e: "a\<lparr>o_skipPackageJson := True\<rparr> = b\<lparr>o_skipPackageJson := True\<rparr>"
    by (simp add: sameButSkip_def)
  show "o_mainFields a = o_mainFields b" using arg_cong [OF e, of o_mainFields] by simp
  show "o_conditions a = o_conditions b" using arg_cong [OF e, of o_conditions] by simp
  show "o_extensions a = o_extensions b" using arg_cong [OF e, of o_extensions] by simp
  show "o_dedupe a = o_dedupe b" using arg_cong [OF e, of o_dedupe] by simp
  show "o_preserveSymlinks a = o_preserveSymlinks b" using arg_cong [OF e, of o_preserveSymlinks] by simp
  show "o_root a = o_root b" using arg_cong [OF e, of o_root] by simp
  show "o_isBuild a = o_isBuild b" using arg_cong [OF e, of o_isBuild] by simp
  show "o_isProduction a = o_isProduction b" using arg_cong [OF e, of o_isProduction] by simp
  show "o_ssrTarget a = o_ssrTarget b" using arg_cong [OF e, of o_ssrTarget] by simp
  show "o_ssrNoExternal a = o_ssrNoExternal b" using arg_cong [OF e, of o_ssrNoExternal] by simp
  show "o_asSrc a = o_asSrc b" using arg_cong [OF e, of o_asSrc] by simp
  show "o_tryPrefix a = o_tryPrefix b" using arg_cong [OF e, of o_tryPrefix] by simp
  show "o_preferRelative a = o_preferRelative b" using arg_cong [OF e, of o_preferRelative] by simp
  show "o_isRequire a = o_isRequire b" using arg_cong [OF e, of o_isRequire] by simp
  show "o_isFromTsImporter a = o_isFromTsImporter b" using arg_cong [OF e, of o_isFromTsImporter] by simp
  show "o_tryEsmOnly a = o_tryEsmOnly b" using arg_cong [OF e, of o_tryEsmOnly] by simp
  show "o_scan a = o_scan b" using arg_cong [OF e, of o_scan] by simp
  show "o_shouldExternalize a = o_shouldExternalize b" using arg_cong [OF e, of o_shouldExternalize] by simp
qed

lemma firstTruthy_rel:
  assumes refl: "\<And>s. R s s" and trans: "\<And>a b c. R a b \<Longrightarrow> R b c \<Longrightarrow> R a c"
  shows "(\<forall>f \<in> set fs. \<forall>s r s'. f s = (r, s') \<longrightarrow> R s s')
           \<Longrightarrow> firstTruthy fs s = (r, s') \<Longrightarrow> R s s'"
proof (induction fs arbitrary: s)
  case Nil
  then show ?case using refl by simp
next
  case (Cons f fs)
  obtain r1 s1 where f: "f s = (r1, s1)" by (cases "f s")
  have R1: "R s s1" using Cons.prems(1) f by simp
  have rest: "\<forall>f \<in> set fs. \<forall>s r s'. f s = (r, s') \<longrightarrow> R s s'"
    using Cons.prems(1) by simp
  show ?case
  proof (cases r1)
    case (Return v)
    show ?thesis
    proof (cases "truthy v")
      case True
      with Cons.prems(2) f Return R1 show ?thesis by simp
    next
      case False
      with Cons.prems(2) f Return have "firstTruthy fs s1 = (r, s')" by simp
      then have "R s1 s'" using Cons.IH [OF rest] by simp
      with R1 show ?thesis using trans by blast
    qed
  next
    case (Throw e)
    with Cons.prems(2) f R1 show ?thesis by simp
  next
    case Diverge
    with Cons.prems(2) f R1 show ?thesis by simp
  qed
qed

text \<open>A result of firstTruthy is the result of one of its attempts, or undefined.\<close>

lemma firstTruthy_result:
  assumes "firstTruthy fs s = (Return (Some v), s')"
  shows "\<exists>f \<in> set fs. \<exists>s0 s1. f s0 = (Return (Some v), s1) \<and> truthy (Some v)"
  using assms
proof (induction fs arbitrary: s)
  case Nil
  then show ?case by simp
next
  case (Cons f fs)
  obtain r1 s1 where f: "f s = (r1, s1)" by (cases "f s")
  show ?case
  proof (cases r1)
    case (Return w)
    show ?thesis
    proof (cases "truthy w")
      case True
      with Cons.prems f Return have "w = Some v" "s1 = s'" by simp_all
      with f Return True show ?thesis by auto
    next
      case False
      with Cons.prems f Return have "firstTruthy fs s1 = (Return (Some v), s')" by simp
      from Cons.IH [OF this] show ?thesis by auto
    qed
  next
    case (Throw e)
    with Cons.prems f show ?thesis by simp
  next
    case Diverge
    with Cons.prems f show ?thesis by simp
  qed
qed


lemma fsAttempts_same:
  assumes callee: "fileSame R'"
  shows "\<forall>f \<in> set (fsAttempts R' fsPath fl postfix exts tryIndex targetWeb).
           \<forall>s r s'. f s = (r, s') \<longrightarrow> sameButSkip s s'"
  using callee unfolding fileSame_def
  by (auto simp: fsAttempts_def Let_def split: if_splits)

lemma tryFsResolveBody_same:
  assumes callee: "fileSame R'"
  shows "fsSame (tryFsResolveBody R')"
  unfolding fsSame_def
proof (intro allI impI)
  fix fsPath options tryIndex targetWeb r s'
  assume run: "tryFsResolveBody R' fsPath options tryIndex targetWeb = (r, s')"
  obtain fl pfx where sp: "splitFileAndPostfix fsPath = (fl, pfx)"
    by (cases "splitFileAndPostfix fsPath")
  from run sp have ft: "firstTruthy
      (fsAttempts R' fsPath fl pfx
         (case o_extensions options of Some exts \<Rightarrow> exts | None \<Rightarrow> DEFAULT_EXTENSIONS)
         tryIndex targetWeb) options = (r, s')"
    by (simp add: tryFsResolveBody_def)
  show "sameButSkip options s'"
    by (rule firstTruthy_rel [where R = sameButSkip, OF _ _ fsAttempts_same [OF callee] ft])
       (auto intro: sameButSkip_trans)
qed

lemma tsOrPrefix_same:
  assumes callee: "fileSame R'"
    and run: "tsOrPrefix ev R' fl postfix tryIndex targetWeb tryPrefix skipPackageJson options
                = (r, s')"
  shows "sameButSkip options s'"
proof (cases "o_isFromTsImporter options \<and> isPossibleTsOutput (e_ut ev) fl")
  case True
  with run have ft: "firstTruthy
       (map (\<lambda>srcPath opts.
               R' srcPath postfix opts tryIndex targetWeb tryPrefix skipPackageJson)
          (getPotentialTsSrcPaths (e_ut ev) fl)) options = (r, s')"
    by (simp add: tsOrPrefix_def)
  have each: "\<forall>f \<in> set (map (\<lambda>srcPath opts.
               R' srcPath postfix opts tryIndex targetWeb tryPrefix skipPackageJson)
          (getPotentialTsSrcPaths (e_ut ev) fl)). \<forall>s r s'. f s = (r, s') \<longrightarrow> sameButSkip s s'"
    using callee unfolding fileSame_def by auto
  show ?thesis
    by (rule firstTruthy_rel [where R = sameButSkip, OF _ _ each ft])
       (auto intro: sameButSkip_trans)
next
  case False
  with run callee show ?thesis
    unfolding fileSame_def by (auto simp: tsOrPrefix_def split: if_splits)
qed

lemma indexOrElse_same:
  assumes fs: "fsSame F'"
    and orElse: "\<forall>opts r s'. orElse opts = (r, s') \<longrightarrow> sameButSkip opts s'"
    and run: "indexOrElse F' fl postfix orElse options = (r, s')"
  shows "sameButSkip options s'"
proof -
  obtain r1 s1 where f: "F' (fl @ ''/index'') options True True = (r1, s1)"
    by (cases "F' (fl @ ''/index'') options True True")
  have s1: "sameButSkip options s1" using fs f unfolding fsSame_def by blast
  show ?thesis
  proof (cases r1)
    case (Return index)
    show ?thesis
    proof (cases "truthy index")
      case True
      with run f Return s1 show ?thesis by (simp add: indexOrElse_def)
    next
      case False
      with run f Return have "orElse s1 = (r, s')" by (simp add: indexOrElse_def)
      with orElse have "sameButSkip s1 s'" by blast
      with s1 show ?thesis using sameButSkip_trans by blast
    qed
  next
    case (Throw e)
    with run f s1 show ?thesis by (simp add: indexOrElse_def)
  next
    case Diverge
    with run f s1 show ?thesis by (simp add: indexOrElse_def)
  qed
qed

lemma tryResolveFileBody_same:
  assumes fs: "fsSame F'" and callee: "fileSame R'" and pe: "entrySame P'"
  shows "fileSame (tryResolveFileBody ev F' R' P')"
  unfolding fileSame_def
proof (intro allI impI)
  fix fl postfix options tryIndex targetWeb tryPrefix skipPackageJson r s'
  assume run: "tryResolveFileBody ev F' R' P' fl postfix options tryIndex targetWeb tryPrefix
                skipPackageJson = (r, s')"
  let ?orElse = "tsOrPrefix ev R' fl postfix tryIndex targetWeb tryPrefix skipPackageJson"
  have orElse: "\<forall>opts r s'. ?orElse opts = (r, s') \<longrightarrow> sameButSkip opts s'"
    using tsOrPrefix_same [OF callee] by blast
  have idx: "\<And>opts r s'. indexOrElse F' fl postfix ?orElse opts = (r, s')
               \<Longrightarrow> sameButSkip opts s'"
    using indexOrElse_same [OF fs orElse] by blast
  show "sameButSkip options s'"
  proof (cases "isFileReadable (e_fs ev) fl \<and> \<not> isDirectory (e_fs ev) fl")
    case True
    with run show ?thesis by (simp add: tryResolveFileBody_def)
  next
    case notFile: False
    show ?thesis
    proof (cases "isFileReadable (e_fs ev) fl \<and> tryIndex")
      case False
      with notFile run have "?orElse options = (r, s')"
        by (auto simp: tryResolveFileBody_def Let_def)
      with orElse show ?thesis by blast
    next
      case dirIdx: True
      show ?thesis
      proof (cases skipPackageJson)
        case True
        with notFile dirIdx run have "indexOrElse F' fl postfix ?orElse options = (r, s')"
          by (auto simp: tryResolveFileBody_def Let_def)
        then show ?thesis by (rule idx)
      next
        case noSkip: False
        show ?thesis
        proof (cases "loadPackageData (e_pk ev) (fl @ ''/package.json'')
                        (o_preserveSymlinks options)")
          case (Inl e)
          with notFile dirIdx noSkip run
          have "(err_code e \<noteq> Some ''ENOENT'' \<and> s' = options)
                \<or> indexOrElse F' fl postfix ?orElse options = (r, s')"
            by (auto simp: tryResolveFileBody_def Let_def split: if_splits)
          then show ?thesis using idx by auto
        next
          case (Inr pkg)
          obtain r1 pkg1 s1 where p: "P' fl pkg targetWeb options = (r1, pkg1, s1)"
            by (cases "P' fl pkg targetWeb options")
          have s1: "sameButSkip options s1" using pe p unfolding entrySame_def by blast
          from notFile dirIdx noSkip run Inr p
          have "s' = s1 \<or> indexOrElse F' fl postfix ?orElse s1 = (r, s')"
            by (auto simp: tryResolveFileBody_def Let_def split: if_splits outcome.splits)
          then show ?thesis using idx s1 sameButSkip_trans by blast
        qed
      qed
    qed
  qed
qed

lemma browserStep_same:
  assumes fs: "fsSame F'"
    and run: "browserStep ev F' pkg entryPoint options = (r, s')"
  shows "sameButSkip options s'"
  using run fs unfolding fsSame_def
  by (auto simp: browserStep_def split: option.splits if_splits prod.splits outcome.splits)

lemma entryAttempt_same:
  assumes fs: "fsSame F'"
    and run: "entryAttempt F' pkg targetWeb entry options = (r, s')"
  shows "sameButSkip options s'"
proof -
  obtain opts1 p where run1: "F' p opts1 True True = (r, s')"
    and o1: "opts1 = options \<or> opts1 = options\<lparr>o_skipPackageJson := True\<rparr>"
    using run by (auto simp: entryAttempt_def Let_def split: if_splits)
  have "sameButSkip options opts1" using o1 by auto
  moreover have "sameButSkip opts1 s'" using fs run1 unfolding fsSame_def by blast
  ultimately show ?thesis using sameButSkip_trans by blast
qed

lemma resolvePackageEntryBody_same:
  assumes fs: "fsSame F'"
  shows "entrySame (resolvePackageEntryBody ev F')"
  unfolding entrySame_def
proof (intro allI impI)
  fix pid pkg targetWeb options r pkg' s'
  assume run: "resolvePackageEntryBody ev F' pid pkg targetWeb options = (r, pkg', s')"
  show "sameButSkip options s'"
  proof (cases "truthy (getResolvedCache pkg ''.'' targetWeb)")
    case True
    with run show ?thesis by (simp add: resolvePackageEntryBody_def)
  next
    case miss: False
    let ?ex = "if (case d_exports (data pkg) of Some x \<Rightarrow> jsonTruthy x | None \<Rightarrow> False)
               then resolveExports ev (data pkg) ''.'' options targetWeb else Inr None"
    show ?thesis
    proof (cases ?ex)
      case (Inl e)
      with miss run show ?thesis by (simp add: resolvePackageEntryBody_def)
    next
      case (Inr entryPoint0)
      let ?bs = "if targetWeb \<and> unsetOrMjs entryPoint0
                 then browserStep ev F' pkg entryPoint0 options else (Return entryPoint0, options)"
      obtain r1 s1 where bs: "?bs = (r1, s1)" by (cases ?bs)
      have s1: "sameButSkip options s1"
        using bs browserStep_same [OF fs] by (auto split: if_splits)
      show ?thesis
      proof (cases r1)
        case (Throw e)
        with miss run Inr bs s1 show ?thesis by (simp add: resolvePackageEntryBody_def)
      next
        case Diverge
        with miss run Inr bs s1 show ?thesis by (simp add: resolvePackageEntryBody_def)
      next
        case (Return entryPoint1)
        let ?ft = "firstTruthy (map (entryAttempt F' pkg targetWeb)
                      (entryPointsOf (data pkg) s1 entryPoint1)) s1"
        obtain r2 s2 where ft: "?ft = (r2, s2)" by (cases ?ft)
        have each: "\<forall>f \<in> set (map (entryAttempt F' pkg targetWeb)
                      (entryPointsOf (data pkg) s1 entryPoint1)).
                      \<forall>s r s'. f s = (r, s') \<longrightarrow> sameButSkip s s'"
          using entryAttempt_same [OF fs] by auto
        have "sameButSkip s1 s2"
          by (rule firstTruthy_rel [where R = sameButSkip, OF _ _ each ft])
             (auto intro: sameButSkip_trans)
        with s1 have s2: "sameButSkip options s2" using sameButSkip_trans by blast
        from miss run Inr bs Return ft have "s' = s2"
          by (auto simp: resolvePackageEntryBody_def split: outcome.splits if_splits)
        with s2 show ?thesis by simp
      qed
    qed
  qed
qed

lemma probe_same:
  "fsSame (tryFsResolve ev n) \<and> fileSame (tryResolveFile ev n)
   \<and> entrySame (resolvePackageEntry ev n)"
proof (induction n)
  case 0
  show ?case
    by (auto simp: fsSame_def fileSame_def entrySame_def tryFsResolve_0 tryResolveFile_0
        resolvePackageEntry_0)
next
  case (Suc n)
  then show ?case
    unfolding tryFsResolve_Suc tryResolveFile_Suc resolvePackageEntry_Suc
    using tryFsResolveBody_same tryResolveFileBody_same resolvePackageEntryBody_same
    by blast
qed

section \<open>Readable files, entry points and the resolved cache\<close>

lemma tryResolveFile_readable:
  assumes "isFileReadable (e_fs ev) fl" and "\<not> isDirectory (e_fs ev) fl"
  shows "tryResolveFile ev (Suc n) fl pf options ti tw tp sk
           = (Return (Some (getRealPath ev fl (o_preserveSymlinks options) @ pf)), options)"
  using assms by (simp add: tryResolveFile_Suc tryResolveFileBody_def)

lemma splitFileAndPostfix_no_postfix:
  "splitFileAndPostfix p = (fl, []) \<Longrightarrow> fl = p"
  using splitFileAndPostfix_append [of p] by simp

lemma tryFsResolve_readable:
  assumes r: "isFileReadable (e_fs ev) p" and d: "\<not> isDirectory (e_fs ev) p"
    and ne: "getRealPath ev p (o_preserveSymlinks options) \<noteq> []"
  shows "tryFsResolve ev (Suc (Suc n)) p options ti tw
           = (Return (Some (getRealPath ev p (o_preserveSymlinks options))), options)"
proof -
  obtain fl pfx where sp: "splitFileAndPostfix p = (fl, pfx)"
    by (cases "splitFileAndPostfix p")
  show ?thesis
  proof (cases "pfx = []")
    case True
    with sp have "fl = p" using splitFileAndPostfix_no_postfix by simp
    with True sp ne show ?thesis
      by (simp add: tryFsResolve_Suc tryFsResolveBody_def fsAttempts_def Let_def
          tryResolveFile_readable [OF r d] truthy_def)
  next
    case False
    with sp ne show ?thesis
      by (simp add: tryFsResolve_Suc tryFsResolveBody_def fsAttempts_def Let_def
          tryResolveFile_readable [OF r d] truthy_def)
  qed
qed

lemma resolvePackageEntry_umd:
  assumes miss: "\<not> truthy (getResolvedCache pkg ''.'' True)"
    and noexp: "d_exports (data pkg) = None"
    and br: "d_browser (data pkg) = Some (BrowserString be)" "be \<noteq> []"
    and md: "d_module (data pkg) = Some mo" "mo \<noteq> be" "mo \<noteq> []"
    and notreq: "o_isRequire options \<noteq> Some True"
    and mf: "o_mainFields options = None"
    and bfile: "isFileReadable (e_fs ev) (pathJoin (dir pkg) be)"
      "\<not> isDirectory (e_fs ev) (pathJoin (dir pkg) be)"
      "getRealPath ev (pathJoin (dir pkg) be) (o_preserveSymlinks options) \<noteq> []"
    and umd: "looksLikeUmd (readFileSync (e_fs ev)
                (getRealPath ev (pathJoin (dir pkg) be) (o_preserveSymlinks options)))"
    and mfile: "isFileReadable (e_fs ev) (pathJoin (dir pkg) mo)"
      "\<not> isDirectory (e_fs ev) (pathJoin (dir pkg) mo)"
      "getRealPath ev (pathJoin (dir pkg) mo) (o_preserveSymlinks options) \<noteq> []"
  shows "resolvePackageEntry ev (Suc (Suc (Suc n))) pid pkg True options
           = (Return (Some (getRealPath ev (pathJoin (dir pkg) mo) (o_preserveSymlinks options))),
              setResolvedCache pkg ''.''
                (getRealPath ev (pathJoin (dir pkg) mo) (o_preserveSymlinks options)) True,
              options)"
proof -
  have be: "browserEntryOf (data pkg) = Some be"
    using br by (simp add: browserEntryOf_def)
  have bs: "browserStep ev (tryFsResolve ev (Suc (Suc n))) pkg None options
              = (Return (Some mo), options)"
    using md notreq umd bfile(3)
    by (simp add: browserStep_def be tryFsResolve_readable [OF bfile] truthy_def)
  have mfs: "mainFieldsStep (data pkg) options (Some mo) = Some mo"
    using md mf
    by (simp add: mainFieldsStep_def DEFAULT_MAIN_FIELDS_def dataString_def)
  have eps: "entryPointsOf (data pkg) options (Some mo) = [mo]"
    using md by (simp add: entryPointsOf_def mfs truthy_def)
  have ea: "entryAttempt (tryFsResolve ev (Suc (Suc n))) pkg True mo options
              = (Return (Some (getRealPath ev (pathJoin (dir pkg) mo)
                                 (o_preserveSymlinks options))), options)"
    using mf br
    by (simp add: entryAttempt_def isSassEntry_def tryFsResolve_readable [OF mfile])
  show ?thesis
    using miss noexp mfile(3)
    by (simp add: resolvePackageEntry_Suc resolvePackageEntryBody_def unsetOrMjs_def bs eps ea
        truthy_def)
qed

lemma resolveDeepImport_exports:
  assumes miss: "\<not> truthy (getResolvedCache pkg rid w)"
    and ex: "d_exports (data pkg) = Some x" "jsonTruthy x" "isObject x"
    and sp: "splitFileAndPostfix rid = (fl, pfx)"
    and re: "resolveExports ev (data pkg) fl options w = Inr (Some target)"
    and ne: "target @ pfx \<noteq> []"
    and rfile: "isFileReadable (e_fs ev) (pathJoin (dir pkg) (target @ pfx))"
      "\<not> isDirectory (e_fs ev) (pathJoin (dir pkg) (target @ pfx))"
      "getRealPath ev (pathJoin (dir pkg) (target @ pfx)) (o_preserveSymlinks options) \<noteq> []"
  shows "resolveDeepImport ev (Suc (Suc n)) rid pkg w options
           = (Return (Some (getRealPath ev (pathJoin (dir pkg) (target @ pfx))
                              (o_preserveSymlinks options))),
              setResolvedCache pkg rid
                (getRealPath ev (pathJoin (dir pkg) (target @ pfx)) (o_preserveSymlinks options)) w,
              options)"
  using miss ex sp re ne rfile(3)
  by (simp add: resolveDeepImport_def probeDeepImport_def tryFsResolve_readable [OF rfile]
      truthy_def)

lemma getResolvedCache_set:
  "getResolvedCache (setResolvedCache pkg k e w) k w = Some e"
  by (simp add: getResolvedCache_def setResolvedCache_def)

lemma truthy_SomeD: "truthy v \<Longrightarrow> v = Some (the v) \<and> the v \<noteq> []"
  by (cases v) (simp_all add: truthy_def)

lemma resolvePackageEntryBody_success:
  assumes "resolvePackageEntryBody ev F' pid pkg w options = (Return v, pkg', options')"
  shows "truthy v \<and> getResolvedCache pkg' ''.'' w = v"
  using assms
  by (auto simp: resolvePackageEntryBody_def getResolvedCache_set dest: truthy_SomeD
      split: if_splits sum.splits prod.splits outcome.splits)

lemma resolvePackageEntry_success:
  assumes "resolvePackageEntry ev n pid pkg w options = (Return v, pkg', options')"
  shows "truthy v \<and> getResolvedCache pkg' ''.'' w = v"
proof (cases n)
  case 0
  with assms show ?thesis by (simp add: resolvePackageEntry_0)
next
  case (Suc m)
  with assms show ?thesis
    using resolvePackageEntryBody_success by (simp add: resolvePackageEntry_Suc)
qed

lemma resolvePackageEntry_cached:
  assumes "truthy (getResolvedCache pkg ''.'' w)"
  shows "resolvePackageEntry ev (Suc m) pid pkg w options
           = (Return (getResolvedCache pkg ''.'' w), pkg, options)"
  using assms by (simp add: resolvePackageEntry_Suc resolvePackageEntryBody_def)

lemma probeDeepImport_success:
  assumes "probeDeepImport ev n k pkg w options relativeId ti = (Return (Some r), pkg', options')"
  shows "r \<noteq> [] \<and> getResolvedCache pkg' k w = Some r"
  using assms
  by (auto simp: probeDeepImport_def getResolvedCache_set truthy_def
      split: if_splits prod.splits outcome.splits option.splits)

lemma resolveDeepImport_success:
  assumes "resolveDeepImport ev n k pkg w options = (Return (Some r), pkg', options')"
  shows "r \<noteq> [] \<and> getResolvedCache pkg' k w = Some r"
proof (cases "truthy (getResolvedCache pkg k w)")
  case True
  with assms show ?thesis by (auto simp: resolveDeepImport_def truthy_def)
next
  case False
  obtain fl pfx where sp: "splitFileAndPostfix k = (fl, pfx)"
    by (cases "splitFileAndPostfix k")
  from assms False sp
  have "(\<exists>rel ti. probeDeepImport ev n k pkg w options rel ti = (Return (Some r), pkg', options'))
        \<or> (w \<and> r = browserExternalId
            \<and> pkg' = pkg\<lparr>webResolvedImports := (webResolvedImports pkg)(k \<mapsto> browserExternalId)\<rparr>)"
    by (auto simp: resolveDeepImport_def
        split: if_splits sum.splits option.splits browser_field.splits browser_value.splits)
  then show ?thesis
  proof
    assume "\<exists>rel ti. probeDeepImport ev n k pkg w options rel ti
              = (Return (Some r), pkg', options')"
    then obtain rel ti where
      "probeDeepImport ev n k pkg w options rel ti = (Return (Some r), pkg', options')"
      by blast
    then show ?thesis by (rule probeDeepImport_success)
  next
    assume "w \<and> r = browserExternalId
            \<and> pkg' = pkg\<lparr>webResolvedImports := (webResolvedImports pkg)(k \<mapsto> browserExternalId)\<rparr>"
    then show ?thesis by (simp add: getResolvedCache_def browserExternalId_def)
  qed
qed

lemma resolveDeepImport_cached:
  assumes "truthy (getResolvedCache pkg k w)"
  shows "resolveDeepImport ev m k pkg w options = (Return (getResolvedCache pkg k w), pkg, options)"
  using assms by (simp add: resolveDeepImport_def)

section \<open>The concrete environment at work\<close>

lemma fooEnv_files:
  "isFileReadable (e_fs fooEnv) (pathJoin ''/p/node_modules/foo'' ''foo.browser.js'')"
  "\<not> isDirectory (e_fs fooEnv) (pathJoin ''/p/node_modules/foo'' ''foo.browser.js'')"
  "getRealPath fooEnv (pathJoin ''/p/node_modules/foo'' ''foo.browser.js'') False
     = ''/p/node_modules/foo/foo.browser.js''"
  "readFileSync (e_fs fooEnv) ''/p/node_modules/foo/foo.browser.js'' = ''module.exports = x''"
  "isFileReadable (e_fs fooEnv) (pathJoin ''/p/node_modules/foo'' ''foo.mjs'')"
  "\<not> isDirectory (e_fs fooEnv) (pathJoin ''/p/node_modules/foo'' ''foo.mjs'')"
  "getRealPath fooEnv (pathJoin ''/p/node_modules/foo'' ''foo.mjs'') False
     = ''/p/node_modules/foo/foo.mjs''"
  by code_simp+

lemma fooPackage_fields:
  "dir (freshPackage ''/p/node_modules/foo'' fooManifest) = ''/p/node_modules/foo''"
  "d_main (data (freshPackage ''/p/node_modules/foo'' fooManifest)) = Some ''foo.cjs''"
  "d_module (data (freshPackage ''/p/node_modules/foo'' fooManifest)) = Some ''foo.mjs''"
  "d_browser (data (freshPackage ''/p/node_modules/foo'' fooManifest))
     = Some (BrowserString ''foo.browser.js'')"
  "d_exports (data (freshPackage ''/p/node_modules/foo'' fooManifest)) = None"
  "\<not> truthy (getResolvedCache (freshPackage ''/p/node_modules/foo'' fooManifest) ''.'' True)"
  by (simp_all add: freshPackage_def fooManifest_def plainManifest_def getResolvedCache_def
      truthy_def)

lemma defaultOptions_fields:
  "o_isRequire (defaultOptions root) \<noteq> Some True"
  "o_mainFields (defaultOptions root) = None"
  "o_preserveSymlinks (defaultOptions root) = False"
  by (simp_all add: defaultOptions_def)

lemma barEnv_files:
  "splitFileAndPostfix ''./sub'' = (''./sub'', [])"
  "resolveExports barEnv barManifest ''./sub'' (defaultOptions ''/p'') True = Inr (Some ''./lib/sub.js'')"
  "isFileReadable (e_fs barEnv) (pathJoin ''/p/node_modules/bar'' ''./lib/sub.js'')"
  "\<not> isDirectory (e_fs barEnv) (pathJoin ''/p/node_modules/bar'' ''./lib/sub.js'')"
  "getRealPath barEnv (pathJoin ''/p/node_modules/bar'' ''./lib/sub.js'') False
     = ''/p/node_modules/bar/lib/sub.js''"
  by code_simp+

lemma barPackage_fields:
  "dir (freshPackage ''/p/node_modules/bar'' barManifest) = ''/p/node_modules/bar''"
  "data (freshPackage ''/p/node_modules/bar'' barManifest) = barManifest"
  "d_exports barManifest = Some (JObject [(''./sub'', JString ''./lib/sub.js'')])"
  "\<not> truthy (getResolvedCache (freshPackage ''/p/node_modules/bar'' barManifest) rid w)"
  by (simp_all add: freshPackage_def barManifest_def plainManifest_def getResolvedCache_def
      truthy_def)

lemma fooEnv_entry:
  "resolvePackageEntry fooEnv (Suc (Suc (Suc 0))) ''foo''
     (freshPackage ''/p/node_modules/foo'' fooManifest) True (defaultOptions ''/p'')
   = (Return (Some ''/p/node_modules/foo/foo.mjs''),
      setResolvedCache (freshPackage ''/p/node_modules/foo'' fooManifest) ''.''
        ''/p/node_modules/foo/foo.mjs'' True,
      defaultOptions ''/p'')"
proof -
  let ?pkg = "freshPackage ''/p/node_modules/foo'' fooManifest"
  let ?o = "defaultOptions ''/p''"
  have u0: "looksLikeUmd ''module.exports = x''" by code_simp
  have u: "looksLikeUmd
             (readFileSync (e_fs fooEnv)
                (getRealPath fooEnv (pathJoin (dir ?pkg) ''foo.browser.js'')
                   (o_preserveSymlinks ?o)))"
    using u0 by (simp only: fooPackage_fields defaultOptions_fields fooEnv_files)
  have b: "isFileReadable (e_fs fooEnv) (pathJoin (dir ?pkg) ''foo.browser.js'')"
    "\<not> isDirectory (e_fs fooEnv) (pathJoin (dir ?pkg) ''foo.browser.js'')"
    "getRealPath fooEnv (pathJoin (dir ?pkg) ''foo.browser.js'') (o_preserveSymlinks ?o) \<noteq> []"
    by (simp_all add: fooPackage_fields defaultOptions_fields fooEnv_files)
  have m: "isFileReadable (e_fs fooEnv) (pathJoin (dir ?pkg) ''foo.mjs'')"
    "\<not> isDirectory (e_fs fooEnv) (pathJoin (dir ?pkg) ''foo.mjs'')"
    "getRealPath fooEnv (pathJoin (dir ?pkg) ''foo.mjs'') (o_preserveSymlinks ?o) \<noteq> []"
    by (simp_all add: fooPackage_fields defaultOptions_fields fooEnv_files)
  have ne: "''foo.browser.js'' \<noteq> []" "''foo.mjs'' \<noteq> ''foo.browser.js''" "''foo.mjs'' \<noteq> []"
    by simp_all
  from resolvePackageEntry_umd
         [OF fooPackage_fields(6) fooPackage_fields(5) fooPackage_fields(4) ne(1)
             fooPackage_fields(3) ne(2) ne(3) defaultOptions_fields(1,2) b u m, of 0 "''foo''"]
  show ?thesis
    by (simp only: fooPackage_fields defaultOptions_fields fooEnv_files)
qed

lemma barEnv_sub:
  "resolveDeepImport barEnv (Suc (Suc 0)) ''./sub''
     (freshPackage ''/p/node_modules/bar'' barManifest) True (defaultOptions ''/p'')
   = (Return (Some ''/p/node_modules/bar/lib/sub.js''),
      setResolvedCache (freshPackage ''/p/node_modules/bar'' barManifest) ''./sub''
        ''/p/node_modules/bar/lib/sub.js'' True,
      defaultOptions ''/p'')"
proof -
  let ?pkg = "freshPackage ''/p/node_modules/bar'' barManifest"
  let ?o = "defaultOptions ''/p''"
  have ex: "d_exports (data ?pkg) = Some (JObject [(''./sub'', JString ''./lib/sub.js'')])"
    by (simp add: barPackage_fields)
  have re: "resolveExports barEnv (data ?pkg) ''./sub'' ?o True = Inr (Some ''./lib/sub.js'')"
    by (simp add: barPackage_fields barEnv_files)
  have f: "isFileReadable (e_fs barEnv) (pathJoin (dir ?pkg) (''./lib/sub.js'' @ []))"
    "\<not> isDirectory (e_fs barEnv) (pathJoin (dir ?pkg) (''./lib/sub.js'' @ []))"
    "getRealPath barEnv (pathJoin (dir ?pkg) (''./lib/sub.js'' @ [])) (o_preserveSymlinks ?o) \<noteq> []"
    by (simp_all add: barPackage_fields defaultOptions_fields barEnv_files)
  from resolveDeepImport_exports
         [OF barPackage_fields(4) ex _ _ barEnv_files(1) re _ f, of 0]
  show ?thesis
    by (simp add: barPackage_fields defaultOptions_fields barEnv_files)
qed

section \<open>The TypeScript fallback of tryResolveFile\<close>

lemma tryResolveFile_ts_tail:
  assumes ts: "o_isFromTsImporter options" and out: "isPossibleTsOutput (e_ut ev) fl"
    and nf: "\<not> (isFileReadable (e_fs ev) fl \<and> (\<not> isDirectory (e_fs ev) fl \<or> ti))"
  shows "tryResolveFile ev (Suc n) fl pf options ti tw tp sk
           = firstTruthy
               (map (\<lambda>src opts. tryResolveFile ev n src pf opts ti tw tp sk)
                  (getPotentialTsSrcPaths (e_ut ev) fl))
               options"
  using assms by (auto simp: tryResolveFile_Suc tryResolveFileBody_def tsOrPrefix_def Let_def)

lemma tryResolveFile_unreadable_plain:
  assumes "\<not> isFileReadable (e_fs ev) fl"
    and "\<not> (o_isFromTsImporter options \<and> isPossibleTsOutput (e_ut ev) fl)"
    and "\<not> truthy tp"
  shows "tryResolveFile ev (Suc n) fl pf options ti tw tp sk = (Return None, options)"
  using assms by (auto simp: tryResolveFile_Suc tryResolveFileBody_def tsOrPrefix_def Let_def)

lemma tryResolveFile_unreadable_prefix:
  assumes "\<not> isFileReadable (e_fs ev) fl"
    and "\<not> (o_isFromTsImporter options \<and> isPossibleTsOutput (e_ut ev) fl)"
    and "truthy tp"
  shows "tryResolveFile ev (Suc n) fl pf options ti tw tp sk
           = tryResolveFile ev n (prefixedPath fl (the tp)) pf options ti tw None False"
  using assms by (auto simp: tryResolveFile_Suc tryResolveFileBody_def tsOrPrefix_def Let_def)

lemma tsOrPrefix_ts_cong:
  assumes "o_isFromTsImporter opts" and "isPossibleTsOutput (e_ut ev) fl"
    and "\<forall>src \<in> set (getPotentialTsSrcPaths (e_ut ev) fl). R src = R2 src"
  shows "tsOrPrefix ev R fl pf ti tw tp sk opts = tsOrPrefix ev R2 fl pf ti tw tp sk opts"
proof -
  have m: "map (\<lambda>srcPath opts. R srcPath pf opts ti tw tp sk) (getPotentialTsSrcPaths (e_ut ev) fl)
        = map (\<lambda>srcPath opts. R2 srcPath pf opts ti tw tp sk) (getPotentialTsSrcPaths (e_ut ev) fl)"
    using assms(3) by (intro map_cong) auto
  show ?thesis by (simp add: tsOrPrefix_def assms(1,2) m)
qed

lemma indexOrElse_cong_same:
  assumes fs: "fsSame F"
    and agree: "\<forall>opts1. sameButSkip opts opts1 \<longrightarrow> g opts1 = h opts1"
  shows "indexOrElse F fl pf g opts = indexOrElse F fl pf h opts"
proof -
  obtain r1 s1 where f: "F (fl @ ''/index'') opts True True = (r1, s1)"
    by (cases "F (fl @ ''/index'') opts True True")
  have "sameButSkip opts s1" using fs f unfolding fsSame_def by blast
  with agree have "g s1 = h s1" by blast
  with f show ?thesis by (simp add: indexOrElse_def split: outcome.splits)
qed

lemma tryResolveFileBody_ts_cong:
  assumes fs: "fsSame F" and pe: "entrySame P"
    and ts: "o_isFromTsImporter options" and out: "isPossibleTsOutput (e_ut ev) fl"
    and agree: "\<forall>src \<in> set (getPotentialTsSrcPaths (e_ut ev) fl). R src = R2 src"
  shows "tryResolveFileBody ev F R P fl pf options ti tw tp sk
           = tryResolveFileBody ev F R2 P fl pf options ti tw tp sk"
proof -
  let ?g = "tsOrPrefix ev R fl pf ti tw tp sk"
  let ?h = "tsOrPrefix ev R2 fl pf ti tw tp sk"
  have tail: "\<And>opts1. sameButSkip options opts1 \<Longrightarrow> ?g opts1 = ?h opts1"
  proof -
    fix opts1 assume "sameButSkip options opts1"
    then have "o_isFromTsImporter opts1" using ts sameButSkip_fields(15) by metis
    then show "?g opts1 = ?h opts1" using out agree by (rule tsOrPrefix_ts_cong)
  qed
  have idx: "\<And>opts1. sameButSkip options opts1 \<Longrightarrow>
               indexOrElse F fl pf ?g opts1 = indexOrElse F fl pf ?h opts1"
  proof -
    fix opts1 assume s: "sameButSkip options opts1"
    show "indexOrElse F fl pf ?g opts1 = indexOrElse F fl pf ?h opts1"
      by (rule indexOrElse_cong_same [OF fs]) (use s tail sameButSkip_trans in blast)
  qed
  have pk: "\<And>pkg r1 pkg1 s1. P fl pkg tw options = (r1, pkg1, s1) \<Longrightarrow> sameButSkip options s1"
    using pe unfolding entrySame_def by blast
  show ?thesis
    using tail [of options] idx [of options] idx pk
    by (auto simp: tryResolveFileBody_def Let_def split: sum.splits prod.splits outcome.splits)
qed

lemma tsEnv_facts:
  "getPotentialTsSrcPaths (e_ut tsEnv) ''/p/src/util.js'' = [''/p/src/util.ts'', ''/p/src/util.tsx'']"
  "isPossibleTsOutput (e_ut tsEnv) ''/p/src/util.js''"
  "\<not> isPossibleTsOutput (e_ut tsEnv) ''/p/src/util.ts''"
  "\<not> isPossibleTsOutput (e_ut tsEnv) ''/p/src/util.tsx''"
  "\<not> isPossibleTsOutput (e_ut tsEnv) ''/p/src/_util.ts''"
  "\<not> isPossibleTsOutput (e_ut tsEnv) ''/p/src/_util.tsx''"
  "\<not> isFileReadable (e_fs tsEnv) ''/p/src/util.js''"
  "\<not> isFileReadable (e_fs tsEnv) ''/p/src/util.ts''"
  "\<not> isFileReadable (e_fs tsEnv) ''/p/src/util.tsx''"
  "\<not> isFileReadable (e_fs tsEnv) ''/p/src/_util.ts''"
  "\<not> isFileReadable (e_fs tsEnv) ''/p/src/_util.tsx''"
  "isFileReadable (e_fs tsEnv) ''/p/src/_util.js''"
  "\<not> isDirectory (e_fs tsEnv) ''/p/src/_util.js''"
  "getRealPath tsEnv ''/p/src/_util.js'' False = ''/p/src/_util.js''"
  "prefixedPath ''/p/src/util.ts'' ''_'' = ''/p/src/_util.ts''"
  "prefixedPath ''/p/src/util.tsx'' ''_'' = ''/p/src/_util.tsx''"
  "prefixedPath ''/p/src/util.js'' ''_'' = ''/p/src/_util.js''"
  by code_simp+

lemma tsOptions_fields:
  "o_isFromTsImporter tsOptions" "o_tryPrefix tsOptions = Some ''_''"
  "o_preserveSymlinks tsOptions = False"
  by (simp_all add: tsOptions_def defaultOptions_def)

lemma tsEnv_candidates:
  "tryResolveFile tsEnv (Suc (Suc 0)) ''/p/src/util.ts'' [] opts False True (Some ''_'') False
     = (Return None, opts)"
  "tryResolveFile tsEnv (Suc (Suc 0)) ''/p/src/util.tsx'' [] opts False True (Some ''_'') False
     = (Return None, opts)"
  by (simp_all add: tryResolveFile_unreadable_prefix tryResolveFile_unreadable_plain tsEnv_facts
      truthy_def)

subsection \<open>The options through a call of the orchestrator\<close>

text \<open>
  Every function the orchestrator calls hands the options on as it received them, up to
  \<open>skipPackageJson\<close>.
\<close>

lemma tryFsResolve_same:
  "sameButSkip opts (snd (tryFsResolve ev n p opts ti tw))"
  using probe_same [of ev n] unfolding fsSame_def by (metis prod.collapse)

lemma resolvePackageEntry_same:
  "sameButSkip opts (snd (snd (resolvePackageEntry ev n pid pkg tw opts)))"
  using probe_same [of ev n] unfolding entrySame_def by (metis prod.collapse)

lemma tryFsResolve_sameD:
  "tryFsResolve ev n p opts ti tw = (r, s') \<Longrightarrow> sameButSkip opts s'"
  using tryFsResolve_same [of opts ev n p ti tw] by simp

lemma probeDeepImport_same:
  "sameButSkip opts (snd (snd (probeDeepImport ev n rid pkg tw opts rel ti)))"
  by (auto simp: probeDeepImport_def sameButSkip_refl split: prod.split outcome.split
      dest: tryFsResolve_sameD)

lemma resolveDeepImport_same:
  "sameButSkip opts (snd (snd (resolveDeepImport ev n rid pkg tw opts)))"
  by (simp add: resolveDeepImport_def sameButSkip_refl probeDeepImport_same
      split: prod.split sum.split option.split browser_field.split browser_value.split)


lemma resolveInPackage_same:
  "sameButSkip opts (snd (snd (resolveInPackage ev n deep uid pkg tw opts)))"
proof -
  let ?f = "if deep then resolveDeepImport ev n else resolvePackageEntry ev n"
  have f: "sameButSkip opts (snd (snd (?f uid pkg tw opts)))"
    using resolveDeepImport_same resolvePackageEntry_same by simp
  obtain r1 p1 s1 where first: "?f uid pkg tw opts = (r1, p1, s1)"
    by (cases "?f uid pkg tw opts")
  have s1: "sameButSkip opts s1" using f first by simp
  have "snd (snd (resolveInPackage ev n deep uid pkg tw opts)) = s1"
    using first
    by (simp add: resolveInPackage_def Let_def split: outcome.split prod.split)
  with s1 show ?thesis by simp
qed

lemma tryNodeResolve_same:
  "sameButSkip opts (snd (snd (tryNodeResolve ev n st rid importer opts tw d ssr ext)))"
proof -
  let ?ids = "possiblePkgIdsLoop (nestedPathOf rid) 0 []"
  let ?found = "findPackage ev (chooseBasedir ev opts importer ?ids (nestedRootOf rid))
      (o_preserveSymlinks opts) (rev ?ids)"
  show ?thesis
  proof (cases ?found)
    case None
    then show ?thesis by (simp add: tryNodeResolve_def Let_def)
  next
    case (Some found)
    obtain pkgId pkg0 where found: "found = (pkgId, pkg0)" by (cases found)
    let ?deep = "pkgId \<noteq> nestedPathOf rid"
    let ?uid = "if ?deep then ''.'' @ sliceFrom (nestedPathOf rid) (int (length pkgId)) else pkgId"
    obtain r1 p1 s1 where rip:
      "resolveInPackage ev n ?deep ?uid (currentHandle st pkg0) tw opts = (r1, p1, s1)"
      by (cases "resolveInPackage ev n ?deep ?uid (currentHandle st pkg0) tw opts")
    have s1: "sameButSkip opts s1"
      using resolveInPackage_same [of opts ev n ?deep ?uid "currentHandle st pkg0" tw] rip by simp
    have "snd (snd (tryNodeResolve ev n st rid importer opts tw d ssr ext)) = s1"
      using Some found rip
      by (simp add: tryNodeResolve_def Let_def split: outcome.split)
    with s1 show ?thesis by simp
  qed
qed

lemma tryResolveBrowserMapping_same:
  "sameButSkip opts (snd (snd (tryResolveBrowserMapping ev n st rid importer opts isFilePath ext)))"
  by (auto simp: tryResolveBrowserMapping_def Let_def
      split: option.split browser_field.split browser_value.split prod.split outcome.split
      dest: tryFsResolve_sameD)

lemma tryResolveBrowserMapping_sameD:
  "tryResolveBrowserMapping ev n st rid importer opts isFilePath ext = (r, st', s')
    \<Longrightarrow> sameButSkip opts s'"
  using tryResolveBrowserMapping_same [of opts ev n st rid importer isFilePath ext] by simp

lemma tryNodeResolve_sameD:
  "tryNodeResolve ev n st rid importer opts tw d ssr ext = (r, st', s') \<Longrightarrow> sameButSkip opts s'"
  using tryNodeResolve_same [of opts ev n st rid importer tw d ssr ext] by simp

lemma browserMappingStep_same:
  "sameButSkip opts (snd (snd (browserMappingStep ev n st opts rid importer tw isFilePath ext)))"
  by (auto simp: browserMappingStep_def
      split: prod.split outcome.split resolve_result.split
      dest: tryResolveBrowserMapping_sameD)

lemma nodeResolveStep_same:
  "sameButSkip opts (snd (snd (nodeResolveStep ev n st opts rid importer tw ssr ext)))"
  by (auto simp: nodeResolveStep_def
      split: prod.split outcome.split option.split
      dest: tryNodeResolve_sameD)

lemma nodeModulesStep_same:
  "sameButSkip opts (snd (snd (nodeModulesStep ev n st opts importer tw ssr basedir nfp)))"
  by (auto simp: nodeModulesStep_def Let_def
      split: prod.split outcome.split option.split
      dest: tryNodeResolve_sameD)

lemma relativeFsStep_same:
  "sameButSkip opts (snd (snd (relativeFsStep ev n st opts importer fsPath)))"
  by (auto simp: relativeFsStep_def Let_def
      split: prod.split outcome.split option.split
      dest: tryFsResolve_sameD)

lemma fsStep_same:
  "sameButSkip opts (snd (snd (fsStep ev n st opts fsPath)))"
  by (auto simp: fsStep_def split: prod.split outcome.split
      dest: tryFsResolve_sameD)

lemma relativeStep_same:
  "sameButSkip opts (snd (snd (relativeStep ev n st opts rid importer tw ssr)))"
proof (cases "isRelativeSpecifier opts rid importer")
  case False
  then show ?thesis by (simp add: relativeStep_def)
next
  case True
  let ?basedir = "if truthy importer then dirname (the importer) else cwd (e_fs ev)"
  let ?fsPath = "pathResolve (cwd (e_fs ev)) ?basedir rid"
  let ?nfp = "normalizePath (e_ut ev) ?fsPath"
  show ?thesis
  proof (cases "case e_depsOptimizer ev of Some d \<Rightarrow> isOptimizedDepFile d ?nfp | None \<Rightarrow> False")
    case True
    with \<open>isRelativeSpecifier opts rid importer\<close> show ?thesis
      by (simp add: relativeStep_def Let_def)
  next
    case False
    obtain r1 st1 s1 where nm:
      "nodeModulesStep ev n st opts importer tw ssr ?basedir ?nfp = (r1, st1, s1)"
      by (cases "nodeModulesStep ev n st opts importer tw ssr ?basedir ?nfp")
    have s1: "sameButSkip opts s1"
      using nodeModulesStep_same [of opts ev n st importer tw ssr ?basedir ?nfp] nm by simp
    obtain r2 st2 s2 where bm:
      "browserMappingStep ev n st1 s1 ?fsPath importer tw True False = (r2, st2, s2)"
      by (cases "browserMappingStep ev n st1 s1 ?fsPath importer tw True False")
    have s2: "sameButSkip s1 s2"
      using browserMappingStep_same [of s1 ev n st1 ?fsPath importer tw True False] bm by simp
    obtain r3 st3 s3 where fs: "relativeFsStep ev n st2 s2 importer ?fsPath = (r3, st3, s3)"
      by (cases "relativeFsStep ev n st2 s2 importer ?fsPath")
    have s3: "sameButSkip s2 s3"
      using relativeFsStep_same [of s2 ev n st2 importer ?fsPath] fs by simp
    have "snd (snd (relativeStep ev n st opts rid importer tw ssr)) \<in> {s1, s2, s3}"
      using True False nm bm fs
      by (simp add: relativeStep_def Let_def split: option.split split del: if_split)
    then show ?thesis
      using s1 s2 s3 sameButSkip_trans by blast
  qed
qed

lemma perCallOptions_fields:
  "o_ssrNoExternal (perCallOptions ev ro importer resolveOpts) = o_ssrNoExternal ro"
  "o_isProduction (perCallOptions ev ro importer resolveOpts) = o_isProduction ro"
  "o_asSrc (perCallOptions ev ro importer resolveOpts) = o_asSrc ro"
  "o_root (perCallOptions ev ro importer resolveOpts) = o_root ro"
  "o_preferRelative (perCallOptions ev ro importer resolveOpts) = o_preferRelative ro"
  "o_shouldExternalize (perCallOptions ev ro importer resolveOpts) = o_shouldExternalize ro"
  by (simp_all add: perCallOptions_def Let_def)

subsection \<open>Explicit filesystem paths\<close>

lemma firstTruthy_all_none:
  "\<forall>f \<in> set fs. f s = (Return None, s) \<Longrightarrow> firstTruthy fs s = (Return None, s)"
  by (induction fs) (simp_all add: truthy_def)

lemma tryFsResolve_missing:
  assumes sp: "splitFileAndPostfix p = (p, [])"
    and exts: "exts = (case o_extensions options of Some e \<Rightarrow> e | None \<Rightarrow> DEFAULT_EXTENSIONS)"
    and miss: "\<forall>ext \<in> set ([] # exts). \<not> isFileReadable (e_fs ev) (p @ ext)"
    and nots: "\<not> o_isFromTsImporter options" and nopre: "\<not> truthy (o_tryPrefix options)"
  shows "tryFsResolve ev (Suc (Suc n)) p options ti tw = (Return None, options)"
proof -
  have one: "tryResolveFile ev (Suc n) (p @ ext) [] options idx tw (o_tryPrefix options)
               (o_skipPackageJson options) = (Return None, options)"
    if "ext \<in> set ([] # exts)" for ext idx
    using that miss nots nopre by (intro tryResolveFile_unreadable_plain) auto
  have "\<forall>f \<in> set (fsAttempts (tryResolveFile ev (Suc n)) p p [] exts ti tw).
          f options = (Return None, options)"
    using one [of "[]"] one by (auto simp: fsAttempts_def Let_def)
  from firstTruthy_all_none [OF this] show ?thesis
    using sp exts by (simp add: tryFsResolve_Suc tryFsResolveBody_def)
qed

lemma startsWith_hd:
  "startsWith s (c # p) \<Longrightarrow> s \<noteq> [] \<and> hd s = c"
  by (cases s) (auto simp: startsWith_def)

lemma FS_PREFIX_not_special:
  assumes "startsWith rid FS_PREFIX"
  shows "\<not> startsWith rid browserExternalId" "rid \<noteq> ''commonjsHelpers.js''"
  using startsWith_hd [of rid "CHR ''/''" "''@fs/''"] startsWith_hd [of rid "CHR ''_''"] assms
  by (auto simp: FS_PREFIX_def browserExternalId_def)

lemma optimizedDepUrlPath_fs:
  "startsWith rid FS_PREFIX \<Longrightarrow> optimizedDepUrlPath ev options rid = fsPathFromId (e_ut ev) rid"
  by (simp add: optimizedDepUrlPath_def)

lemma barEnv_missing:
  "e_depsOptimizer barEnv = None"
  "fsPathFromId (e_ut barEnv) ''/@fs/p/missing.js'' = ''/p/missing.js''"
  "splitFileAndPostfix ''/p/missing.js'' = (''/p/missing.js'', [])"
  "\<forall>ext \<in> set ([] # DEFAULT_EXTENSIONS). \<not> isFileReadable (e_fs barEnv) (''/p/missing.js'' @ ext)"
  "startsWith ''/@fs/p/missing.js'' FS_PREFIX"
  "\<not> strIncludes ''/@fs/p/missing.js'' ''?commonjs''"
  "fsPathFromId (e_ut barEnv) ''/@fs/p/node_modules/bar/lib/sub.js'' = ''/p/node_modules/bar/lib/sub.js''"
  "startsWith ''/@fs/p/node_modules/bar/lib/sub.js'' FS_PREFIX"
  "\<not> strIncludes ''/@fs/p/node_modules/bar/lib/sub.js'' ''?commonjs''"
  "isFileReadable (e_fs barEnv) ''/p/node_modules/bar/lib/sub.js''"
  "\<not> isDirectory (e_fs barEnv) ''/p/node_modules/bar/lib/sub.js''"
  "getRealPath barEnv ''/p/node_modules/bar/lib/sub.js'' False = ''/p/node_modules/bar/lib/sub.js''"
  by code_simp+

lemma perCallOptions_plain:
  "perCallOptions ev (defaultOptions root) None clientCall
     = (defaultOptions root)\<lparr>o_isRequire := Some False\<rparr>"
  "perCallOptions ev (defaultOptions root) None ssrCall
     = (defaultOptions root)\<lparr>o_isRequire := Some False\<rparr>"
  by (simp_all add: perCallOptions_def defaultOptions_def clientCall_def ssrCall_def truthy_def)

subsection \<open>Built-in modules\<close>

lemma startsWith_slash:
  "startsWith rid FS_PREFIX \<Longrightarrow> startsWith rid ''/''"
  "isAbsolute rid \<Longrightarrow> startsWith rid ''/''"
  by (cases rid; auto simp: startsWith_def FS_PREFIX_def isAbsolute_def)+

lemma step_sameD:
  "relativeStep ev n st opts rid importer tw ssr = (r, st', s') \<Longrightarrow> sameButSkip opts s'"
  "browserMappingStep ev n st opts rid importer tw fp ext = (r, st', s') \<Longrightarrow> sameButSkip opts s'"
  "nodeResolveStep ev n st opts rid importer tw ssr ext = (r, st', s') \<Longrightarrow> sameButSkip opts s'"
  using relativeStep_same [of opts ev n st rid importer tw ssr]
    browserMappingStep_same [of opts ev n st rid importer tw fp ext]
    nodeResolveStep_same [of opts ev n st rid importer tw ssr ext]
  by simp_all

lemma optimizedStep_opts:
  "optimizedStep ev st opts rid importer ssr ext = (r, st', s') \<Longrightarrow> s' = opts"
  by (auto simp: optimizedStep_def Let_def split: if_splits)

lemma builtinResult_same:
  "sameButSkip a b \<Longrightarrow> builtinResult ev b rid importer ssr = builtinResult ev a rid importer ssr"
  by (simp add: builtinResult_def sameButSkip_fields(8) sameButSkip_fields(10))

lemma builtin_fs_facts:
  "\<not> startsWith ''fs'' browserExternalId"
  "\<not> strIncludes ''fs'' ''?commonjs''"
  "''fs'' \<noteq> ''commonjsHelpers.js''"
  "\<not> startsWith ''fs'' ''/''"
  "\<not> startsWith ''fs'' ''.''"
  "\<not> isExternalUrl (e_ut barEnv) ''fs''"
  "\<not> isDataUrl (e_ut barEnv) ''fs''"
  "bareImportRE (e_ut barEnv) ''fs''"
  "isBuiltin (e_ut barEnv) ''fs''"
  "possiblePkgIdsLoop (nestedPathOf ''fs'') 0 [] = [''fs'']"
  by code_simp+

lemma barEnv_no_fs_package:
  "e_depsOptimizer barEnv = None"
  "resolvePackageData (e_pk barEnv) ''fs'' basedir preserveSymlinks = None"
  by (simp_all add: barEnv_def plainEnv_def listedPackages_def)

lemma builtin_fs_steps:
  assumes "\<not> o_preferRelative opts"
  shows "relativeStep barEnv n st opts ''fs'' None tw ssr = (None, st, opts)"
    "optimizedStep barEnv st opts ''fs'' None ssr ext = (None, st, opts)"
    "browserMappingStep barEnv n st opts ''fs'' None tw False ext = (None, st, opts)"
    "nodeResolveStep barEnv n st opts ''fs'' None tw ssr ext = (None, st, opts)"
proof -
  show "relativeStep barEnv n st opts ''fs'' None tw ssr = (None, st, opts)"
    using assms by (simp add: relativeStep_def isRelativeSpecifier_def builtin_fs_facts(5))
  show "optimizedStep barEnv st opts ''fs'' None ssr ext = (None, st, opts)"
    by (simp add: optimizedStep_def barEnv_no_fs_package)
  show "browserMappingStep barEnv n st opts ''fs'' None tw False ext = (None, st, opts)"
    by (simp add: browserMappingStep_def tryResolveBrowserMapping_def truthy_def)
  have "tryNodeResolve barEnv n st ''fs'' None opts tw None ssr ext = (Return None, st, opts)"
    by (simp add: tryNodeResolve_def Let_def builtin_fs_facts(10) barEnv_no_fs_package
        del: possiblePkgIdsLoop.simps)
  then show "nodeResolveStep barEnv n st opts ''fs'' None tw ssr ext = (None, st, opts)"
    by (simp add: nodeResolveStep_def barEnv_no_fs_package)
qed

section \<open>Paths in normal form\<close>

lemma splitOn_nonempty: "splitOn c s \<noteq> []"
  by (induction s) (auto split: list.splits)

lemma splitOn_no_sep: "\<forall>seg \<in> set (splitOn c s). c \<notin> set seg"
  by (induction s) (auto split: list.splits)

lemma splitOn_plain: "c \<notin> set a \<Longrightarrow> splitOn c a = [a]"
  by (induction a) (auto split: list.splits)

lemma splitOn_append_sep: "c \<notin> set a \<Longrightarrow> splitOn c (a @ c # b) = a # splitOn c b"
  by (induction a) (auto split: list.splits)

lemma splitOn_join:
  "segs \<noteq> [] \<Longrightarrow> \<forall>s \<in> set segs. c \<notin> set s \<Longrightarrow> splitOn c (joinWith [c] segs) = segs"
proof (induction "[c]" segs rule: joinWith.induct)
  case 1
  then show ?case by simp
next
  case (2 x)
  then show ?case by (simp add: splitOn_plain)
next
  case (3 x y ys)
  then show ?case by (simp add: splitOn_append_sep)
qed

lemma splitOn_join_trailing:
  assumes "segs \<noteq> []" and "\<forall>s \<in> set segs. c \<notin> set s"
  shows "splitOn c (joinWith [c] segs @ [c]) = segs @ [[]]"
  using assms
proof (induction "[c]" segs rule: joinWith.induct)
  case 1
  then show ?case by simp
next
  case (2 x)
  then show ?case using splitOn_append_sep [of c x "[]"] by simp
next
  case (3 x y ys)
  then show ?case by (simp add: splitOn_append_sep)
qed

lemma normalizeSegments_clean:
  assumes "\<forall>s \<in> set acc. cleanSegment s" and "\<forall>s \<in> set segs. CHR ''/'' \<notin> set s"
  shows "\<forall>s \<in> set (normalizeSegments False acc segs). cleanSegment s"
  using assms
proof (induction segs arbitrary: acc)
  case Nil
  then show ?case by simp
next
  case (Cons seg segs)
  have tl: "\<forall>s \<in> set (tl acc). cleanSegment s"
    using Cons.prems(1) by (cases acc) auto
  have push: "seg \<noteq> [] \<Longrightarrow> seg \<noteq> ''.'' \<Longrightarrow> seg \<noteq> ''..''
                \<Longrightarrow> \<forall>s \<in> set (seg # acc). cleanSegment s"
    using Cons.prems by (auto simp: cleanSegment_def)
  have rest: "\<forall>s \<in> set segs. CHR ''/'' \<notin> set s" using Cons.prems(2) by simp
  show ?case
    using Cons.IH [OF Cons.prems(1) rest] Cons.IH [OF tl rest] Cons.IH [OF push rest]
    by simp
qed

lemma normalizeSegments_fixed:
  assumes "\<forall>s \<in> set xs. s = [] \<or> cleanSegment s"
  shows "normalizeSegments b acc xs = rev acc @ filter (\<lambda>s. s \<noteq> []) xs"
  using assms
  by (induction xs arbitrary: acc) (auto simp: cleanSegment_def)

lemma joinWith_Nil_iff:
  "\<forall>s \<in> set segs. s \<noteq> [] \<Longrightarrow> (joinWith sep segs = []) = (segs = [])"
  by (induction sep segs rule: joinWith.induct) auto

lemma joinWith_last_both:
  "segs \<noteq> [] \<Longrightarrow> last segs \<noteq> []
    \<Longrightarrow> joinWith sep segs \<noteq> [] \<and> last (joinWith sep segs) = last (last segs)"
  by (induction sep segs rule: joinWith.induct) auto

lemma joinWith_last:
  "segs \<noteq> [] \<Longrightarrow> last segs \<noteq> [] \<Longrightarrow> last (joinWith sep segs) = last (last segs)"
  using joinWith_last_both by blast

lemma posixNormalize_root: "posixNormalize ''/'' = ''/''"
  by code_simp

lemma posixNormalize_absolute: "isAbsolute p \<Longrightarrow> isAbsolute (posixNormalize p)"
  by (auto simp: posixNormalize_def isAbsolute_def Let_def)

lemma posixNormalize_idem:
  assumes a: "isAbsolute p"
  shows "posixNormalize (posixNormalize p) = posixNormalize p"
proof -
  let ?segs = "normalizeSegments False [] (splitOn CHR ''/'' p)"
  let ?q = "joinWith ''/'' ?segs"
  have clean: "\<forall>s \<in> set ?segs. cleanSegment s"
    by (rule normalizeSegments_clean) (simp_all add: splitOn_no_sep)
  have ne: "p \<noteq> []" using a by (simp add: isAbsolute_def)
  show ?thesis
  proof (cases "?segs = []")
    case True
    then have "posixNormalize p = ''/''"
      using a ne by (simp add: posixNormalize_def normalizeString_def Let_def)
    then show ?thesis by (simp add: posixNormalize_root)
  next
    case False
    have qne: "?q \<noteq> []"
      using False clean joinWith_Nil_iff [of ?segs "''/''"] by (auto simp: cleanSegment_def)
    let ?t = "if last p = CHR ''/'' then ''/'' else []"
    have r: "posixNormalize p = ''/'' @ ?q @ ?t"
      using a ne qne by (simp add: posixNormalize_def normalizeString_def Let_def)
    have nosep: "\<forall>s \<in> set ?segs. CHR ''/'' \<notin> set s"
      using clean by (simp add: cleanSegment_def)
    have lastq: "last ?q \<noteq> CHR ''/''"
    proof -
      have l: "last ?segs \<in> set ?segs" using False by simp
      then have "cleanSegment (last ?segs)" using clean by blast
      then have "last ?segs \<noteq> []" "CHR ''/'' \<notin> set (last ?segs)"
        by (simp_all add: cleanSegment_def)
      then have "last (last ?segs) \<noteq> CHR ''/''" using last_in_set by metis
      then show ?thesis using joinWith_last [OF False \<open>last ?segs \<noteq> []\<close>] by simp
    qed
    have split: "splitOn CHR ''/'' (?q @ ?t) = ?segs @ (if last p = CHR ''/'' then [[]] else [])"
      using splitOn_join [OF False nosep] splitOn_join_trailing [OF False nosep] by simp
    have segs2: "normalizeSegments False [] (splitOn CHR ''/'' (''/'' @ ?q @ ?t)) = ?segs"
    proof -
      have "splitOn CHR ''/'' (''/'' @ ?q @ ?t)
              = [] # ?segs @ (if last p = CHR ''/'' then [[]] else [])"
        using split by simp
      moreover have "\<forall>s \<in> set ([] # ?segs @ (if last p = CHR ''/'' then [[]] else [])).
                       s = [] \<or> cleanSegment s"
        using clean by auto
      moreover have "filter (\<lambda>s. s \<noteq> []) ?segs = ?segs"
        using clean by (auto simp: cleanSegment_def filter_id_conv)
      ultimately show ?thesis
        by (simp add: normalizeSegments_fixed)
    qed
    have trail: "(last (''/'' @ ?q @ ?t) = CHR ''/'') = (last p = CHR ''/'')"
      using lastq qne by simp
    have "posixNormalize (''/'' @ ?q @ ?t) = ''/'' @ ?q @ ?t"
      using qne trail segs2
      by (simp add: posixNormalize_def normalizeString_def Let_def isAbsolute_def)
    with r show ?thesis by simp
  qed
qed

text \<open>An absolute path is in normal form exactly when its segments are.\<close>

lemma splitOn_Cons_sep: "splitOn c (c # s) = [] # splitOn c s"
  by simp

lemma splitOn_Cons_other:
  "x \<noteq> c \<Longrightarrow> splitOn c (x # s) = (x # hd (splitOn c s)) # tl (splitOn c s)"
  using splitOn_nonempty [of c s] by (cases "splitOn c s") simp_all

lemma splitOn_append:
  "splitOn c (u @ v)
     = butlast (splitOn c u) @ [last (splitOn c u) @ hd (splitOn c v)] @ tl (splitOn c v)"
proof (induction u)
  case Nil
  then show ?case using splitOn_nonempty [of c v] by (cases "splitOn c v") simp_all
next
  case (Cons x u)
  obtain a as where U: "splitOn c u = a # as"
    using splitOn_nonempty [of c u] by (cases "splitOn c u") simp_all
  show ?case
  proof (cases "x = c")
    case True
    then show ?thesis using Cons U by simp
  next
    case False
    show ?thesis
    proof (cases as)
      case Nil
      with U Cons have "splitOn c (u @ v) = (a @ hd (splitOn c v)) # tl (splitOn c v)" by simp
      then show ?thesis using False U Nil by simp
    next
      case (Cons b bs)
      with U Cons.IH
      have "splitOn c (u @ v)
              = a # butlast (b # bs) @ [last (b # bs) @ hd (splitOn c v)] @ tl (splitOn c v)"
        by simp
      then show ?thesis using False U Cons by simp
    qed
  qed
qed

lemma joinWith_splitOn: "joinWith [c] (splitOn c s) = s"
proof (induction s)
  case Nil
  then show ?case by simp
next
  case (Cons x s)
  obtain a as where S: "splitOn c s = a # as"
    using splitOn_nonempty [of c s] by (cases "splitOn c s") simp_all
  show ?case
  proof (cases "x = c")
    case True
    then show ?thesis using Cons S by simp
  next
    case False
    then show ?thesis using Cons S by (cases as) simp_all
  qed
qed

lemma splitOn_single: "splitOn c [x] = (if x = c then [[], []] else [[x]])"
  by simp

lemma splitOn_last_empty:
  "(last (splitOn c s) = []) = (s = [] \<or> last s = c)"
proof (cases s rule: rev_cases)
  case Nil
  then show ?thesis by simp
next
  case (snoc s' x)
  have "splitOn c (s' @ [x])
          = butlast (splitOn c s') @ [last (splitOn c s') @ hd (splitOn c [x])]
            @ tl (splitOn c [x])"
    by (rule splitOn_append)
  then show ?thesis using snoc by (simp add: splitOn_single del: splitOn.simps)
qed

lemma joinWith_snoc_empty: "xs \<noteq> [] \<Longrightarrow> joinWith sep (xs @ [[]]) = joinWith sep xs @ sep"
  by (induction sep xs rule: joinWith.induct) simp_all

lemma normalSegments_absolute:
  assumes n: "normalSegments (splitOn CHR ''/'' t)"
  shows "absoluteNormalized (CHR ''/'' # t)"
proof -
  let ?L = "splitOn CHR ''/'' t"
  have Lne: "?L \<noteq> []" by (rule splitOn_nonempty)
  have bl: "\<forall>s \<in> set (butlast ?L). cleanSegment s"
    and la: "last ?L = [] \<or> cleanSegment (last ?L)"
    using n by (simp_all add: normalSegments_def)
  have setL: "set ?L = insert (last ?L) (set (butlast ?L))"
  proof -
    have "set (butlast ?L @ [last ?L]) = insert (last ?L) (set (butlast ?L))"
      by (simp del: append_butlast_last_id)
    then show ?thesis using Lne by simp
  qed
  have all: "\<forall>s \<in> set ([] # ?L). s = [] \<or> cleanSegment s"
    using bl la setL by auto
  have ns: "normalizeString (CHR ''/'' # t) False
              = joinWith ''/'' (filter (\<lambda>s. s \<noteq> []) ?L)"
    using normalizeSegments_fixed [OF all, of False "[]"]
    by (simp add: normalizeString_def)
  have blf: "filter (\<lambda>s. s \<noteq> []) (butlast ?L) = butlast ?L"
    using bl by (auto simp: filter_id_conv cleanSegment_def)
  have t: "joinWith ''/'' ?L = t" by (rule joinWith_splitOn)
  have abs: "isAbsolute (CHR ''/'' # t)" by (simp add: isAbsolute_def)
  show ?thesis
  proof (cases "last ?L = []")
    case True
    have "filter (\<lambda>s. s \<noteq> []) (butlast ?L @ [last ?L]) = butlast ?L"
      using True blf by (simp del: append_butlast_last_id)
    then have f: "filter (\<lambda>s. s \<noteq> []) ?L = butlast ?L"
      using Lne by simp
    show ?thesis
    proof (cases "butlast ?L = []")
      case e: True
      have "butlast ?L @ [last ?L] = [[]]" using e True by (simp del: append_butlast_last_id)
      then have "?L = [[]]" using Lne by simp
      then have "joinWith ''/'' ?L = []" by (simp del: splitOn.simps)
      then have "t = []" using t by simp
      then show ?thesis by (simp add: absoluteNormalized_def isAbsolute_def posixNormalize_root)
    next
      case ne: False
      have q: "joinWith ''/'' (butlast ?L) \<noteq> []"
        using joinWith_Nil_iff [of "butlast ?L" "''/''"] bl ne by (auto simp: cleanSegment_def)
      have "butlast ?L @ [[]] = ?L" using Lne True append_butlast_last_id [of ?L] by simp
      then have "t = joinWith ''/'' (butlast ?L @ [[]])" using t by simp
      then have t2: "t = joinWith ''/'' (butlast ?L) @ ''/''"
        using joinWith_snoc_empty [OF ne] by simp
      have tr: "last (CHR ''/'' # t) = CHR ''/''"
        using True splitOn_last_empty [of "CHR ''/''" t] by auto
      have "posixNormalize (CHR ''/'' # t) = ''/'' @ joinWith ''/'' (butlast ?L) @ ''/''"
        using q tr abs by (simp add: posixNormalize_def Let_def ns f)
      then show ?thesis using t2 abs by (simp add: absoluteNormalized_def)
    qed
  next
    case False
    then have cl: "cleanSegment (last ?L)" using la by simp
    have allc: "\<forall>s \<in> set ?L. cleanSegment s"
      using bl cl setL by auto
    then have f: "filter (\<lambda>s. s \<noteq> []) ?L = ?L"
      by (auto simp: filter_id_conv cleanSegment_def)
    have tne: "t \<noteq> []" "last t \<noteq> CHR ''/''"
      using False splitOn_last_empty [of "CHR ''/''" t] by auto
    then have tr: "last (CHR ''/'' # t) \<noteq> CHR ''/''" by simp
    have "posixNormalize (CHR ''/'' # t) = ''/'' @ t"
      using tne tr abs by (simp add: posixNormalize_def Let_def ns f t)
    then show ?thesis using abs by (simp add: absoluteNormalized_def)
  qed
qed

lemma absolute_normalSegments:
  assumes a: "absoluteNormalized a"
  shows "normalSegments (splitOn CHR ''/'' (tl a))"
proof -
  have abs: "isAbsolute a" and fixed: "posixNormalize a = a"
    using a by (simp_all add: absoluteNormalized_def)
  have ne: "a \<noteq> []" using abs by (simp add: isAbsolute_def)
  let ?segs = "normalizeSegments False [] (splitOn CHR ''/'' a)"
  let ?q = "joinWith ''/'' ?segs"
  have clean: "\<forall>s \<in> set ?segs. cleanSegment s"
    by (rule normalizeSegments_clean) (simp_all add: splitOn_no_sep)
  have nosep: "\<forall>s \<in> set ?segs. CHR ''/'' \<notin> set s"
    using clean by (simp add: cleanSegment_def)
  show ?thesis
  proof (cases "?segs = []")
    case True
    then have "posixNormalize a = ''/''"
      using abs ne by (simp add: posixNormalize_def normalizeString_def Let_def)
    with fixed have "a = ''/''" by simp
    then have "tl a = []" by simp
    then show ?thesis by (simp add: normalSegments_def)
  next
    case False
    have qne: "?q \<noteq> []"
      using False clean joinWith_Nil_iff [of ?segs "''/''"] by (auto simp: cleanSegment_def)
    let ?t = "if last a = CHR ''/'' then ''/'' else []"
    have "posixNormalize a = ''/'' @ ?q @ ?t"
      using abs ne qne by (simp add: posixNormalize_def normalizeString_def Let_def)
    with fixed have "a = CHR ''/'' # (?q @ ?t)" by simp
    then have tl: "tl a = ?q @ ?t" by (metis list.sel(3))
    have split: "splitOn CHR ''/'' (tl a)
                   = ?segs @ (if last a = CHR ''/'' then [[]] else [])"
      using splitOn_join [OF False nosep] splitOn_join_trailing [OF False nosep] tl by simp
    show ?thesis
      unfolding split using clean False
      by (auto simp: normalSegments_def butlast_append dest: in_set_butlastD)
  qed
qed

subsection \<open>Good ids and absolute paths\<close>

lemma pathWithPostfix_iff:
  "pathWithPostfix x = (\<exists>a b. x = a @ b \<and> absoluteNormalized a \<and> isPostfix b)"
proof
  assume "pathWithPostfix x"
  then obtain k where "absoluteNormalized (take k x)" "isPostfix (drop k x)"
    unfolding pathWithPostfix_def list_ex_iff by blast
  then show "\<exists>a b. x = a @ b \<and> absoluteNormalized a \<and> isPostfix b"
    using append_take_drop_id [of k x] by metis
next
  assume "\<exists>a b. x = a @ b \<and> absoluteNormalized a \<and> isPostfix b"
  then obtain a b where x: "x = a @ b" and a: "absoluteNormalized a" and b: "isPostfix b"
    by blast
  have "length a \<in> set [0..<Suc (length x)]" using x by simp
  moreover have "absoluteNormalized (take (length a) x) \<and> isPostfix (drop (length a) x)"
    using x a b by simp
  ultimately show "pathWithPostfix x"
    unfolding pathWithPostfix_def list_ex_iff by blast
qed

lemma pathWithPostfix_plain: "absoluteNormalized a \<Longrightarrow> pathWithPostfix a"
  using pathWithPostfix_iff [of a] by (auto simp: isPostfix_def)

lemma isPostfix_append: "isPostfix a \<Longrightarrow> isPostfix b \<Longrightarrow> isPostfix (a @ b)"
  by (cases a) (auto simp: isPostfix_def)

lemma pathWithPostfix_append:
  assumes "pathWithPostfix x" and "isPostfix pf"
  shows "pathWithPostfix (x @ pf)"
proof -
  from assms(1) obtain a b where "x = a @ b" "absoluteNormalized a" "isPostfix b"
    using pathWithPostfix_iff by blast
  then have "x @ pf = a @ (b @ pf) \<and> absoluteNormalized a \<and> isPostfix (b @ pf)"
    using assms(2) isPostfix_append by simp
  then show ?thesis using pathWithPostfix_iff by blast
qed

lemma pathWithPostfix_absolute: "pathWithPostfix x \<Longrightarrow> isAbsolute x"
  by (auto simp: pathWithPostfix_iff absoluteNormalized_def isAbsolute_def)

lemma pathWithPostfix_good: "pathWithPostfix x \<Longrightarrow> goodId x"
  by (simp add: goodId_def)

lemma sentinel_good: "goodId browserExternalId"
  by (simp add: goodId_def)

lemma isAbsolute_append: "isAbsolute a \<Longrightarrow> isAbsolute (a @ b)"
  by (simp add: isAbsolute_def)

lemma pathJoin_absolute: "isAbsolute a \<Longrightarrow> isAbsolute (pathJoin a b)"
proof -
  assume a: "isAbsolute a"
  then have ne: "a \<noteq> []" by (simp add: isAbsolute_def)
  have "isAbsolute (joinWith ''/'' (filter (\<lambda>x. x \<noteq> []) [a, b]))"
    using a ne by (simp add: isAbsolute_append)
  then show ?thesis
    using ne by (simp add: pathJoin_def Let_def posixNormalize_absolute)
qed

lemma pathResolve_absolute: "isAbsolute wd \<Longrightarrow> isAbsolute (pathResolve wd a b)"
  by (simp add: pathResolve_def Let_def isAbsolute_def)

lemma dirname_absolute: "isAbsolute p \<Longrightarrow> isAbsolute (dirname p)"
  by (auto simp: dirname_def Let_def isAbsolute_def hd_take)

lemma prefixedPath_absolute: "isAbsolute fl \<Longrightarrow> isAbsolute (prefixedPath fl tp)"
  by (simp add: prefixedPath_def dirname_absolute isAbsolute_append)

lemma splitFileAndPostfix_isPostfix: "isPostfix (snd (splitFileAndPostfix p))"
  using splitFileAndPostfix_head [of p] by (simp add: isPostfix_def)

lemma slice_absolute: "isAbsolute p \<Longrightarrow> 0 < i \<Longrightarrow> isAbsolute (slice p 0 i)"
  by (auto simp: slice_def clampIndex_def isAbsolute_def hd_take min_def)

lemma splitFileAndPostfix_absolute:
  "isAbsolute p \<Longrightarrow> isAbsolute (fst (splitFileAndPostfix p))"
  by (simp add: splitFileAndPostfix_def Let_def slice_absolute)

lemma wfPkg_cache:
  "wfPkg P pkg \<Longrightarrow> getResolvedCache pkg key w = Some v \<Longrightarrow> P v"
  by (auto simp: wfPkg_def getResolvedCache_def split: if_splits)

lemma wfPkg_set:
  "wfPkg P pkg \<Longrightarrow> P v \<Longrightarrow> wfPkg P (setResolvedCache pkg key v w)"
  by (auto simp: wfPkg_def setResolvedCache_def)

lemma wfPkg_weaken:
  "wfPkg pathWithPostfix pkg \<Longrightarrow> wfPkg goodId pkg"
  by (auto simp: wfPkg_def pathWithPostfix_good)

subsection \<open>The probe returns paths with postfix\<close>

lemma fsGoodD:
  "fsGood F \<Longrightarrow> isAbsolute p \<Longrightarrow> F p opts ti tw = (Return r, s') \<Longrightarrow> truthy r
    \<Longrightarrow> pathWithPostfix (the r)"
  unfolding fsGood_def by blast

lemma fileGoodD:
  "fileGood R \<Longrightarrow> isAbsolute fl \<Longrightarrow> isPostfix pf
    \<Longrightarrow> R fl pf opts ti tw tp sk = (Return r, s') \<Longrightarrow> truthy r \<Longrightarrow> pathWithPostfix (the r)"
  unfolding fileGood_def by blast

lemma isPostfix_Nil: "isPostfix []"
  by (simp add: isPostfix_def)

lemma fsAttempts_good:
  assumes callee: "fileGood R'" and p: "isAbsolute fsPath" and f: "isAbsolute fl"
    and pf: "isPostfix postfix"
  shows "\<forall>g \<in> set (fsAttempts R' fsPath fl postfix exts tryIndex targetWeb).
           \<forall>s r s'. g s = (Return r, s') \<longrightarrow> truthy r \<longrightarrow> pathWithPostfix (the r)"
proof -
  have w: "pathWithPostfix (the r)"
    if "R' (fsPath @ ext) [] s idx targetWeb (o_tryPrefix s) (o_skipPackageJson s)
          = (Return r, s')" and "truthy r"
    for ext idx s r s'
    using fileGoodD [OF callee isAbsolute_append [OF p] isPostfix_Nil that] .
  have wo: "pathWithPostfix (the r)"
    if "R' (fl @ ext) postfix s idx targetWeb (o_tryPrefix s) (o_skipPackageJson s)
          = (Return r, s')" and "truthy r"
    for ext idx s r s'
    using fileGoodD [OF callee isAbsolute_append [OF f] pf that] .
  note w0 = w [of "[]", simplified] and wo0 = wo [of "[]", simplified]
  show ?thesis
    unfolding fsAttempts_def Let_def
    using w0 wo0 w wo by (auto simp: truthy_def split: if_splits)
qed

lemma firstTruthy_good:
  assumes each: "\<forall>g \<in> set gs. \<forall>s r s'. g s = (Return r, s') \<longrightarrow> truthy r \<longrightarrow> Q (the r)"
    and run: "firstTruthy gs s = (Return r, s')" and t: "truthy r"
  shows "Q (the r)"
proof -
  from t obtain v where r: "r = Some v" by (cases r) (simp_all add: truthy_def)
  from firstTruthy_result [of gs s v s'] run r
  obtain g s0 s1 where "g \<in> set gs" "g s0 = (Return (Some v), s1)" "truthy (Some v)"
    by blast
  with each r show ?thesis by fastforce
qed

lemma tryFsResolveBody_good:
  assumes callee: "fileGood R'"
  shows "fsGood (tryFsResolveBody R')"
  unfolding fsGood_def
proof (intro allI impI)
  fix p opts ti tw r s'
  assume p: "isAbsolute p" and run: "tryFsResolveBody R' p opts ti tw = (Return r, s')"
    and t: "truthy r"
  obtain fl pf where sp: "splitFileAndPostfix p = (fl, pf)" by (cases "splitFileAndPostfix p")
  have fl: "isAbsolute fl" using splitFileAndPostfix_absolute [OF p] sp by simp
  have pf: "isPostfix pf" using splitFileAndPostfix_isPostfix [of p] sp by simp
  let ?exts = "case o_extensions opts of Some exts \<Rightarrow> exts | None \<Rightarrow> DEFAULT_EXTENSIONS"
  have run': "firstTruthy (fsAttempts R' p fl pf ?exts ti tw) opts = (Return r, s')"
    using run sp by (simp add: tryFsResolveBody_def)
  show "pathWithPostfix (the r)"
    by (rule firstTruthy_good [OF fsAttempts_good [OF callee p fl pf] run' t])
qed

lemma tsOrPrefix_good:
  assumes env: "wfEnv ev" and callee: "fileGood R'" and f: "isAbsolute fl"
    and pf: "isPostfix postfix"
    and run: "tsOrPrefix ev R' fl postfix ti tw tp sk opts = (Return r, s')" and t: "truthy r"
  shows "pathWithPostfix (the r)"
proof (cases "o_isFromTsImporter opts \<and> isPossibleTsOutput (e_ut ev) fl")
  case True
  let ?gs = "map (\<lambda>srcPath opts. R' srcPath postfix opts ti tw tp sk)
               (getPotentialTsSrcPaths (e_ut ev) fl)"
  have srcs: "\<forall>src \<in> set (getPotentialTsSrcPaths (e_ut ev) fl). isAbsolute src"
    using env f unfolding wfEnv_def by blast
  have each: "\<forall>g \<in> set ?gs. \<forall>s r s'. g s = (Return r, s') \<longrightarrow> truthy r
                \<longrightarrow> pathWithPostfix (the r)"
    using srcs fileGoodD [OF callee _ pf] by auto
  have "firstTruthy ?gs opts = (Return r, s')"
    using run True by (simp add: tsOrPrefix_def)
  from firstTruthy_good [OF each this t] show ?thesis .
next
  case False
  show ?thesis
  proof (cases "truthy tp")
    case True
    with False run
    have "R' (prefixedPath fl (the tp)) postfix opts ti tw None False = (Return r, s')"
      by (auto simp: tsOrPrefix_def)
    from fileGoodD [OF callee prefixedPath_absolute [OF f] pf this t] show ?thesis .
  next
    case noPrefix: False
    with False run have "r = None" by (auto simp: tsOrPrefix_def)
    with t show ?thesis by (simp add: truthy_def)
  qed
qed

lemma indexOrElse_good:
  assumes fs: "fsGood F'" and f: "isAbsolute fl" and pf: "isPostfix postfix"
    and orElse: "\<And>opts r s'. orElse opts = (Return r, s') \<Longrightarrow> truthy r
                   \<Longrightarrow> pathWithPostfix (the r)"
    and run: "indexOrElse F' fl postfix orElse opts = (Return r, s')" and t: "truthy r"
  shows "pathWithPostfix (the r)"
proof -
  obtain r1 s1 where i: "F' (fl @ ''/index'') opts True True = (r1, s1)"
    by (cases "F' (fl @ ''/index'') opts True True")
  show ?thesis
  proof (cases r1)
    case (Return idx)
    show ?thesis
    proof (cases "truthy idx")
      case True
      have "pathWithPostfix (the idx)"
        using fsGoodD [OF fs isAbsolute_append [OF f] _ True] i Return by simp
      then have "pathWithPostfix (the idx @ postfix)" using pf by (rule pathWithPostfix_append)
      moreover have "r = Some (the idx @ postfix)"
        using run i Return True by (simp add: indexOrElse_def)
      ultimately show ?thesis by simp
    next
      case False
      then have "orElse s1 = (Return r, s')"
        using run i Return by (simp add: indexOrElse_def)
      then show ?thesis using orElse t by blast
    qed
  next
    case (Throw e)
    with run i show ?thesis by (simp add: indexOrElse_def)
  next
    case Diverge
    with run i show ?thesis by (simp add: indexOrElse_def)
  qed
qed

lemma entryPathD:
  "entryPath E \<Longrightarrow> wfEntryCache pkg \<Longrightarrow> E pid pkg tw opts = (Return v, pkg', s') \<Longrightarrow> truthy v
    \<Longrightarrow> pathWithPostfix (the v)"
  unfolding entryPath_def by blast

lemma entryGoodD:
  "entryGood P E \<Longrightarrow> wfPkg P pkg \<Longrightarrow> E pid pkg tw opts = (Return v, pkg', s') \<Longrightarrow> truthy v
    \<Longrightarrow> P (the v)"
  unfolding entryGood_def by blast

lemma entryGood_pkg:
  "entryGood P E \<Longrightarrow> wfPkg P pkg \<Longrightarrow> E pid pkg tw opts = (r, pkg', s') \<Longrightarrow> wfPkg P pkg'"
  unfolding entryGood_def by blast

lemma tryResolveFileBody_good:
  assumes env: "wfEnv ev" and fs: "fsGood F'" and callee: "fileGood R'"
    and pe: "entryPath P'"
  shows "fileGood (tryResolveFileBody ev F' R' P')"
  unfolding fileGood_def
proof (intro allI impI)
  fix fl postfix options tryIndex targetWeb tryPrefix skipPackageJson r s'
  assume f: "isAbsolute fl" and pf: "isPostfix postfix"
    and run: "tryResolveFileBody ev F' R' P' fl postfix options tryIndex targetWeb tryPrefix
                skipPackageJson = (Return r, s')"
    and t: "truthy r"
  let ?orElse = "tsOrPrefix ev R' fl postfix tryIndex targetWeb tryPrefix skipPackageJson"
  have orElse: "\<And>opts r s'. ?orElse opts = (Return r, s') \<Longrightarrow> truthy r
                  \<Longrightarrow> pathWithPostfix (the r)"
    using tsOrPrefix_good [OF env callee f pf] by blast
  have idx: "pathWithPostfix (the r)"
    if "indexOrElse F' fl postfix ?orElse opts = (Return r, s')" for opts
    by (rule indexOrElse_good [where orElse = ?orElse, OF fs f pf _ that t]) (blast intro: orElse)
  show "pathWithPostfix (the r)"
  proof (cases "isFileReadable (e_fs ev) fl \<and> \<not> isDirectory (e_fs ev) fl")
    case True
    with run have r: "r = Some (getRealPath ev fl (o_preserveSymlinks options) @ postfix)"
      by (auto simp: tryResolveFileBody_def)
    have "absoluteNormalized (getRealPath ev fl (o_preserveSymlinks options))"
      using env f unfolding wfEnv_def by blast
    then show ?thesis
      using r pf pathWithPostfix_append pathWithPostfix_plain by simp
  next
    case notFile: False
    show ?thesis
    proof (cases "isFileReadable (e_fs ev) fl \<and> tryIndex")
      case False
      with notFile run have "?orElse options = (Return r, s')"
        by (auto simp: tryResolveFileBody_def Let_def)
      with orElse t show ?thesis by blast
    next
      case dirIdx: True
      show ?thesis
      proof (cases skipPackageJson)
        case True
        with notFile dirIdx run
        have "indexOrElse F' fl postfix ?orElse options = (Return r, s')"
          by (auto simp: tryResolveFileBody_def Let_def)
        then show ?thesis by (rule idx)
      next
        case noSkip: False
        show ?thesis
        proof (cases "loadPackageData (e_pk ev) (fl @ ''/package.json'')
                        (o_preserveSymlinks options)")
          case (Inl e)
          with notFile dirIdx noSkip run
          have "indexOrElse F' fl postfix ?orElse options = (Return r, s')"
            by (auto simp: tryResolveFileBody_def Let_def split: if_splits)
          then show ?thesis by (rule idx)
        next
          case (Inr pkg)
          have wf: "wfEntryCache pkg"
            using env Inr unfolding wfEnv_def by blast
          obtain r1 pkg1 s1 where p: "P' fl pkg targetWeb options = (r1, pkg1, s1)"
            by (cases "P' fl pkg targetWeb options")
          from notFile dirIdx noSkip run Inr p
          have "(r1 = Return r \<and> s' = s1)
                \<or> indexOrElse F' fl postfix ?orElse s1 = (Return r, s')"
            by (auto simp: tryResolveFileBody_def Let_def split: if_splits outcome.splits)
          then show ?thesis
          proof
            assume "r1 = Return r \<and> s' = s1"
            with p have "P' fl pkg targetWeb options = (Return r, pkg1, s1)" by simp
            from entryPathD [OF pe wf this t] show ?thesis .
          next
            assume "indexOrElse F' fl postfix ?orElse s1 = (Return r, s')"
            then show ?thesis by (rule idx)
          qed
        qed
      qed
    qed
  qed
qed

lemma entryAttempt_good:
  assumes fs: "fsGood F'" and d: "isAbsolute (dir pkg)"
    and run: "entryAttempt F' pkg targetWeb entry options = (Return r, s')" and t: "truthy r"
  shows "pathWithPostfix (the r)"
proof -
  obtain opts1 e where run1: "F' (pathJoin (dir pkg) e) opts1 True True = (Return r, s')"
    using run by (auto simp: entryAttempt_def Let_def split: if_splits)
  from fsGoodD [OF fs pathJoin_absolute [OF d] run1 t] show ?thesis .
qed

lemma resolvePackageEntryBody_good:
  assumes fs: "fsGood F'" and P: "\<And>x. pathWithPostfix x \<Longrightarrow> P x"
  shows "entryGood P (resolvePackageEntryBody ev F')"
  unfolding entryGood_def
proof (intro allI impI)
  fix pid pkg targetWeb options r pkg' s'
  assume wf: "wfPkg P pkg"
    and run: "resolvePackageEntryBody ev F' pid pkg targetWeb options = (r, pkg', s')"
  have d: "isAbsolute (dir pkg)" using wf by (simp add: wfPkg_def)
  show "wfPkg P pkg' \<and> (\<forall>v. r = Return v \<longrightarrow> truthy v \<longrightarrow> P (the v))"
  proof (cases "truthy (getResolvedCache pkg ''.'' targetWeb)")
    case True
    then obtain x where c: "getResolvedCache pkg ''.'' targetWeb = Some x"
      by (cases "getResolvedCache pkg ''.'' targetWeb") (simp_all add: truthy_def)
    have "P x" using wfPkg_cache [OF wf c] .
    with True run c wf show ?thesis by (auto simp: resolvePackageEntryBody_def)
  next
    case miss: False
    let ?ex = "if (case d_exports (data pkg) of Some x \<Rightarrow> jsonTruthy x | None \<Rightarrow> False)
               then resolveExports ev (data pkg) ''.'' options targetWeb else Inr None"
    show ?thesis
    proof (cases ?ex)
      case (Inl e)
      with miss run wf show ?thesis by (auto simp: resolvePackageEntryBody_def)
    next
      case (Inr entryPoint0)
      let ?bs = "if targetWeb \<and> unsetOrMjs entryPoint0
                 then browserStep ev F' pkg entryPoint0 options else (Return entryPoint0, options)"
      obtain r1 s1 where bs: "?bs = (r1, s1)" by (cases ?bs)
      show ?thesis
      proof (cases r1)
        case (Throw e)
        with miss run Inr bs wf show ?thesis by (auto simp: resolvePackageEntryBody_def)
      next
        case Diverge
        with miss run Inr bs wf show ?thesis by (auto simp: resolvePackageEntryBody_def)
      next
        case (Return entryPoint1)
        let ?gs = "map (entryAttempt F' pkg targetWeb) (entryPointsOf (data pkg) s1 entryPoint1)"
        obtain r2 s2 where ft: "firstTruthy ?gs s1 = (r2, s2)" by (cases "firstTruthy ?gs s1")
        have each: "\<forall>g \<in> set ?gs. \<forall>s r s'. g s = (Return r, s') \<longrightarrow> truthy r
                      \<longrightarrow> pathWithPostfix (the r)"
          using entryAttempt_good [OF fs d] by auto
        show ?thesis
        proof (cases r2)
          case inner: (Return v)
          show ?thesis
          proof (cases "truthy v")
            case True
            have "pathWithPostfix (the v)"
              using firstTruthy_good [OF each _ True] ft inner by simp
            then have pv: "P (the v)" by (rule P)
            have "r = Return v" "pkg' = setResolvedCache pkg ''.'' (the v) targetWeb"
              using miss run Inr bs Return ft inner True
              by (simp_all add: resolvePackageEntryBody_def)
            then show ?thesis using pv wfPkg_set [OF wf pv] by simp
          next
            case False
            with miss run Inr bs Return ft inner wf show ?thesis
              by (auto simp: resolvePackageEntryBody_def)
          qed
        next
          case (Throw e)
          with miss run Inr bs Return ft wf show ?thesis
            by (auto simp: resolvePackageEntryBody_def)
        next
          case Diverge
          with miss run Inr bs Return ft wf show ?thesis
            by (auto simp: resolvePackageEntryBody_def)
        qed
      qed
    qed
  qed
qed

lemma resolvePackageEntryBody_path:
  assumes fs: "fsGood F'"
  shows "entryPath (resolvePackageEntryBody ev F')"
  unfolding entryPath_def
proof (intro allI impI)
  fix pid pkg targetWeb options r pkg' s'
  assume wf: "wfEntryCache pkg"
    and run: "resolvePackageEntryBody ev F' pid pkg targetWeb options = (Return r, pkg', s')"
    and t: "truthy r"
  have d: "isAbsolute (dir pkg)" using wf by (simp add: wfEntryCache_def)
  show "pathWithPostfix (the r)"
  proof (cases "truthy (getResolvedCache pkg ''.'' targetWeb)")
    case True
    then obtain x where c: "getResolvedCache pkg ''.'' targetWeb = Some x"
      by (cases "getResolvedCache pkg ''.'' targetWeb") (simp_all add: truthy_def)
    have "pathWithPostfix x"
      using wf c by (auto simp: wfEntryCache_def getResolvedCache_def split: if_splits)
    moreover have "r = Some x"
      using True run c by (simp add: resolvePackageEntryBody_def)
    ultimately show ?thesis by simp
  next
    case miss: False
    let ?ex = "if (case d_exports (data pkg) of Some x \<Rightarrow> jsonTruthy x | None \<Rightarrow> False)
               then resolveExports ev (data pkg) ''.'' options targetWeb else Inr None"
    show ?thesis
    proof (cases ?ex)
      case (Inl e)
      with miss run show ?thesis by (auto simp: resolvePackageEntryBody_def)
    next
      case (Inr entryPoint0)
      let ?bs = "if targetWeb \<and> unsetOrMjs entryPoint0
                 then browserStep ev F' pkg entryPoint0 options else (Return entryPoint0, options)"
      obtain r1 s1 where bs: "?bs = (r1, s1)" by (cases ?bs)
      show ?thesis
      proof (cases r1)
        case (Throw e)
        with miss run Inr bs show ?thesis by (auto simp: resolvePackageEntryBody_def)
      next
        case Diverge
        with miss run Inr bs show ?thesis by (auto simp: resolvePackageEntryBody_def)
      next
        case (Return entryPoint1)
        let ?gs = "map (entryAttempt F' pkg targetWeb) (entryPointsOf (data pkg) s1 entryPoint1)"
        obtain r2 s2 where ft: "firstTruthy ?gs s1 = (r2, s2)" by (cases "firstTruthy ?gs s1")
        have each: "\<forall>g \<in> set ?gs. \<forall>s r s'. g s = (Return r, s') \<longrightarrow> truthy r
                      \<longrightarrow> pathWithPostfix (the r)"
          using entryAttempt_good [OF fs d] by auto
        show ?thesis
        proof (cases r2)
          case inner: (Return v)
          show ?thesis
          proof (cases "truthy v")
            case True
            have "pathWithPostfix (the v)"
              using firstTruthy_good [OF each _ True] ft inner by simp
            moreover have "r = v"
              using miss run Inr bs Return ft inner True
              by (simp add: resolvePackageEntryBody_def)
            ultimately show ?thesis by simp
          next
            case False
            with miss run Inr bs Return ft inner show ?thesis
              by (auto simp: resolvePackageEntryBody_def)
          qed
        next
          case (Throw e)
          with miss run Inr bs Return ft show ?thesis
            by (auto simp: resolvePackageEntryBody_def)
        next
          case Diverge
          with miss run Inr bs Return ft show ?thesis
            by (auto simp: resolvePackageEntryBody_def)
        qed
      qed
    qed
  qed
qed

lemma probe_good:
  assumes env: "wfEnv ev"
  shows "fsGood (tryFsResolve ev n) \<and> fileGood (tryResolveFile ev n)
         \<and> entryPath (resolvePackageEntry ev n)
         \<and> entryGood goodId (resolvePackageEntry ev n)"
proof (induction n)
  case 0
  show ?case
    by (auto simp: fsGood_def fileGood_def entryGood_def entryPath_def tryFsResolve_0
        tryResolveFile_0 resolvePackageEntry_0)
next
  case (Suc n)
  then show ?case
    unfolding tryFsResolve_Suc tryResolveFile_Suc resolvePackageEntry_Suc
    using tryFsResolveBody_good tryResolveFileBody_good [OF env]
      resolvePackageEntryBody_path
      resolvePackageEntryBody_good [where P = goodId] pathWithPostfix_good
    by blast
qed

subsection \<open>Package resolution returns good ids\<close>

lemma tryFsResolve_good:
  assumes "wfEnv ev" and "isAbsolute p" and "tryFsResolve ev n p opts ti tw = (Return r, s')"
    and "truthy r"
  shows "pathWithPostfix (the r)"
  using probe_good [OF assms(1), of n] assms(2-) fsGoodD by blast

lemma resolvePackageEntry_good:
  assumes "wfEnv ev" and "wfPkg goodId pkg"
  shows "packageGood (resolvePackageEntry ev n pid pkg tw opts)"
proof -
  obtain r pkg' s' where run: "resolvePackageEntry ev n pid pkg tw opts = (r, pkg', s')"
    by (cases "resolvePackageEntry ev n pid pkg tw opts")
  have "entryGood goodId (resolvePackageEntry ev n)" using probe_good [OF assms(1)] by blast
  then show ?thesis
    using assms(2) run unfolding entryGood_def packageGood_def by fastforce
qed

lemma probeDeepImport_good:
  assumes env: "wfEnv ev" and wf: "wfPkg goodId pkg"
  shows "packageGood (probeDeepImport ev n rid pkg tw opts rel ti)"
proof (cases "truthy rel")
  case False
  then show ?thesis using wf by (simp add: probeDeepImport_def packageGood_def truthy_def)
next
  case True
  have d: "isAbsolute (pathJoin (dir pkg) (the rel))"
    using wf by (simp add: wfPkg_def pathJoin_absolute)
  obtain r s1 where run: "tryFsResolve ev n (pathJoin (dir pkg) (the rel)) opts ti tw = (r, s1)"
    by (cases "tryFsResolve ev n (pathJoin (dir pkg) (the rel)) opts ti tw")
  show ?thesis
  proof (cases r)
    case (Return resolved)
    show ?thesis
    proof (cases "truthy resolved")
      case t: True
      have "goodId (the resolved)"
        using tryFsResolve_good [OF env d _ t] run Return pathWithPostfix_good by blast
      then show ?thesis
        using True run Return t wfPkg_set [OF wf]
        by (simp add: probeDeepImport_def packageGood_def)
    next
      case False
      then show ?thesis
        using True run Return wf by (simp add: probeDeepImport_def packageGood_def truthy_def)
    qed
  next
    case (Throw e)
    then show ?thesis using True run wf by (simp add: probeDeepImport_def packageGood_def)
  next
    case Diverge
    then show ?thesis using True run wf by (simp add: probeDeepImport_def packageGood_def)
  qed
qed

lemma wfPkg_externalized:
  "wfPkg goodId pkg
    \<Longrightarrow> wfPkg goodId (pkg\<lparr>webResolvedImports := (webResolvedImports pkg)(rid \<mapsto> browserExternalId)\<rparr>)"
  by (auto simp: wfPkg_def sentinel_good)

lemma resolveDeepImport_good:
  assumes env: "wfEnv ev" and wf: "wfPkg goodId pkg"
  shows "packageGood (resolveDeepImport ev n rid pkg tw opts)"
proof (cases "truthy (getResolvedCache pkg rid tw)")
  case True
  then obtain x where c: "getResolvedCache pkg rid tw = Some x"
    by (cases "getResolvedCache pkg rid tw") (simp_all add: truthy_def)
  have "goodId x" using wfPkg_cache [OF wf c] .
  then show ?thesis using True c wf by (simp add: resolveDeepImport_def packageGood_def)
next
  case False
  have thrown: "packageGood (Throw e, pkg, opts)" for e
    using wf by (simp add: packageGood_def)
  have ext: "packageGood (Return (Some browserExternalId),
               pkg\<lparr>webResolvedImports := (webResolvedImports pkg)(rid \<mapsto> browserExternalId)\<rparr>, opts)"
    using wfPkg_externalized [OF wf] by (simp add: packageGood_def sentinel_good)
  show ?thesis
    using False thrown ext probeDeepImport_good [OF env wf]
    by (simp add: resolveDeepImport_def
        split: prod.split sum.split option.split browser_field.split browser_value.split)
qed

lemma resolveInPackage_good:
  assumes env: "wfEnv ev" and wf: "wfPkg goodId pkg"
  shows "packageGood (resolveInPackage ev n deep uid pkg tw opts)"
proof -
  let ?f = "if deep then resolveDeepImport ev n else resolvePackageEntry ev n"
  have f: "packageGood (?f u p t o1)" if "wfPkg goodId p" for u p t o1
    using resolveDeepImport_good [OF env that] resolvePackageEntry_good [OF env that] by simp
  obtain r1 p1 s1 where first: "?f uid pkg tw opts = (r1, p1, s1)"
    by (cases "?f uid pkg tw opts")
  have g1: "packageGood (r1, p1, s1)" using f [OF wf, of uid tw opts] first by simp
  then have wf1: "wfPkg goodId p1" by (simp add: packageGood_def)
  let ?o2 = "s1\<lparr>o_isRequire := Some False, o_mainFields := Some DEFAULT_MAIN_FIELDS,
                 o_extensions := Some DEFAULT_EXTENSIONS\<rparr>"
  obtain r2 p2 s2 where second: "?f uid p1 tw ?o2 = (r2, p2, s2)"
    by (cases "?f uid p1 tw ?o2")
  have g2: "packageGood (r2, p2, s1)"
    using f [OF wf1, of uid tw ?o2] second by (simp add: packageGood_def)
  have "resolveInPackage ev n deep uid pkg tw opts = (r1, p1, s1)
        \<or> resolveInPackage ev n deep uid pkg tw opts = (r2, p2, s1)"
    using first second
    by (cases deep) (simp_all add: resolveInPackage_def Let_def split: outcome.split)
  then show ?thesis using g1 g2 by auto
qed

lemma findPackage_Some:
  "findPackage ev basedir ps ids = Some (pkgId, pkg)
    \<Longrightarrow> resolvePackageData (e_pk ev) pkgId basedir ps = Some pkg"
  by (induction ids) (auto split: option.splits)

lemma wfState_currentHandle:
  "wfState st \<Longrightarrow> wfPkg goodId pkg \<Longrightarrow> wfPkg goodId (currentHandle st pkg)"
  by (auto simp: wfState_def currentHandle_def split: option.splits)

lemma wfState_storeHandle:
  "wfState st \<Longrightarrow> wfPkg goodId pkg \<Longrightarrow> wfState (storeHandle st pkg)"
  by (auto simp: wfState_def storeHandle_def)

lemma wfState_record:
  "wfState st \<Longrightarrow> wfPkg goodId pkg \<Longrightarrow> wfState (st\<lparr>idToPkgMap := (idToPkgMap st)(key \<mapsto> pkg)\<rparr>)"
  by (auto simp: wfState_def)

lemma wfState_store_record:
  "wfState st \<Longrightarrow> wfPkg goodId pkg
    \<Longrightarrow> wfState ((storeHandle st pkg)\<lparr>idToPkgMap := (idToPkgMap st)(key \<mapsto> pkg)\<rparr>)"
  by (auto simp: wfState_def storeHandle_def)

lemma processResult_good:
  "goodId (res_id resolved) \<Longrightarrow> processResult rid ext deep pkg resolved = Some res
    \<Longrightarrow> \<not> res_external res \<Longrightarrow> goodId (res_id res)"
  by (auto simp: processResult_def Let_def split: if_splits)

lemma sentinel_outside_node_modules: "\<not> strIncludes browserExternalId ''node_modules''"
  by code_simp

lemma optimizeOrVersion_good:
  assumes env: "wfEnv ev" and d: "e_depsOptimizer ev = Some d" and g: "pathWithPostfix resolved"
    and run: "optimizeOrVersion ev d opts rid importer ssr pkgId np resolved = Return x"
  shows "goodId x"
proof -
  have registered: "goodId (getOptimizedDepId d (registerMissingImport d rid resolved ssr))"
    using env d unfolding wfEnv_def by auto
  have injected: "goodId (injectQuery (e_ut ev) resolved (''v='' @ browserHash md))"
    if "metadata d ssr = Some md" for md
    using env d g that unfolding wfEnv_def by auto
  from run have "x = resolved
      \<or> (\<exists>md. metadata d ssr = Some md
                \<and> x = injectQuery (e_ut ev) resolved (''v='' @ browserHash md))
      \<or> x = getOptimizedDepId d (registerMissingImport d rid resolved ssr)"
    unfolding optimizeOrVersion_def Let_def
    by (auto split: if_splits option.splits)
  then show ?thesis using registered injected g pathWithPostfix_good by auto
qed

lemma tryNodeResolve_good:
  assumes env: "wfEnv ev" and st: "wfState st"
  shows "nodeGood (tryNodeResolve ev n st rid importer opts tw (e_depsOptimizer ev) ssr ext)"
proof -
  let ?ids = "possiblePkgIdsLoop (nestedPathOf rid) 0 []"
  let ?found = "findPackage ev (chooseBasedir ev opts importer ?ids (nestedRootOf rid))
      (o_preserveSymlinks opts) (rev ?ids)"
  show ?thesis
  proof (cases ?found)
    case None
    then show ?thesis using st by (simp add: tryNodeResolve_def Let_def nodeGood_def)
  next
    case (Some found)
    obtain pkgId pkg0 where found: "found = (pkgId, pkg0)" by (cases found)
    have w0: "wfPkg goodId pkg0"
      using findPackage_Some Some found env unfolding wfEnv_def by blast
    have h: "wfPkg goodId (currentHandle st pkg0)" using st w0 by (rule wfState_currentHandle)
    let ?deep = "pkgId \<noteq> nestedPathOf rid"
    let ?uid = "if ?deep then ''.'' @ sliceFrom (nestedPathOf rid) (int (length pkgId)) else pkgId"
    obtain r1 p1 s1 where rip:
      "resolveInPackage ev n ?deep ?uid (currentHandle st pkg0) tw opts = (r1, p1, s1)"
      by (cases "resolveInPackage ev n ?deep ?uid (currentHandle st pkg0) tw opts")
    have g: "packageGood (r1, p1, s1)"
      using resolveInPackage_good [OF env h, of n ?deep ?uid tw opts] rip by simp
    then have p1: "wfPkg goodId p1" by (simp add: packageGood_def)
    have stored: "wfState (storeHandle st p1)" using st p1 by (rule wfState_storeHandle)
    have recorded: "wfState ((storeHandle st p1)\<lparr>idToPkgMap := (idToPkgMap st)(key \<mapsto> p1)\<rparr>)"
      for key using st p1 by (rule wfState_store_record)
    have run: "tryNodeResolve ev n st rid importer opts tw (e_depsOptimizer ev) ssr ext
        = (case (r1, p1, s1) of
             (Throw e, pkg, opts1) \<Rightarrow> (Throw e, storeHandle st pkg, opts1)
           | (Diverge, pkg, opts1) \<Rightarrow> (Diverge, storeHandle st pkg, opts1)
           | (Return resolved0, pkg, opts1) \<Rightarrow>
               if \<not> truthy resolved0 then (Return None, storeHandle st pkg, opts1)
               else
                 let resolved = the resolved0;
                     st1 = (storeHandle st pkg)\<lparr>idToPkgMap := (idToPkgMap st)(resolved \<mapsto> pkg)\<rparr>
                 in if (o_isBuild opts1 \<and> e_depsOptimizer ev = None) \<or> ext
                    then (Return (processResult rid ext ?deep pkg
                                    \<lparr>res_id = resolved, res_external = False,
                                     res_moduleSideEffects = Some (hasSideEffects pkg resolved)\<rparr>),
                          st1, opts1)
                    else if \<not> strIncludes resolved ''node_modules'' \<or> e_depsOptimizer ev = None
                            \<or> o_scan opts1
                    then (Return (Some \<lparr>res_id = resolved, res_external = False,
                                         res_moduleSideEffects = None\<rparr>), st1, opts1)
                    else (case optimizeOrVersion ev (the (e_depsOptimizer ev)) opts1 rid importer ssr
                                 pkgId (nestedPathOf rid) resolved of
                            Throw e \<Rightarrow> (Throw e, st1, opts1)
                          | Diverge \<Rightarrow> (Diverge, st1, opts1)
                          | Return resolved1 \<Rightarrow>
                              (Return (Some \<lparr>res_id = resolved1, res_external = False,
                                             res_moduleSideEffects =
                                               (if o_isBuild opts1
                                                then Some (hasSideEffects pkg resolved1)
                                                else None)\<rparr>),
                               st1, opts1)))"
      using Some found rip
      by (simp add: tryNodeResolve_def Let_def del: possiblePkgIdsLoop.simps)
    show ?thesis
    proof (cases r1)
      case (Throw e)
      then show ?thesis using run stored by (simp add: nodeGood_def)
    next
      case Diverge
      then show ?thesis using run stored by (simp add: nodeGood_def)
    next
      case (Return resolved0)
      show ?thesis
      proof (cases "truthy resolved0")
        case False
        then show ?thesis using run Return stored by (simp add: nodeGood_def)
      next
        case True
        have gr: "goodId (the resolved0)"
          using g Return True by (simp add: packageGood_def)
        let ?resolved = "the resolved0"
        let ?st1 = "(storeHandle st p1)\<lparr>idToPkgMap := (idToPkgMap st)(?resolved \<mapsto> p1)\<rparr>"
        show ?thesis
        proof (cases "(o_isBuild s1 \<and> e_depsOptimizer ev = None) \<or> ext")
          case a: True
          then have "tryNodeResolve ev n st rid importer opts tw (e_depsOptimizer ev) ssr ext
              = (Return (processResult rid ext ?deep p1
                           \<lparr>res_id = ?resolved, res_external = False,
                            res_moduleSideEffects = Some (hasSideEffects p1 ?resolved)\<rparr>),
                 ?st1, s1)"
            using run Return True by (simp add: Let_def)
          then show ?thesis
            using recorded processResult_good [of "\<lparr>res_id = ?resolved, res_external = False,
                res_moduleSideEffects = Some (hasSideEffects p1 ?resolved)\<rparr>" rid ext ?deep p1] gr
            by (simp add: nodeGood_def)
        next
          case na: False
          show ?thesis
          proof (cases "\<not> strIncludes ?resolved ''node_modules'' \<or> e_depsOptimizer ev = None
                          \<or> o_scan s1")
            case b: True
            then have "tryNodeResolve ev n st rid importer opts tw (e_depsOptimizer ev) ssr ext
              = (Return (Some \<lparr>res_id = ?resolved, res_external = False,
                               res_moduleSideEffects = None\<rparr>), ?st1, s1)"
              using run Return True na by (simp add: Let_def)
            then show ?thesis using recorded gr by (simp add: nodeGood_def)
          next
            case nb: False
            then obtain d where d: "e_depsOptimizer ev = Some d" by auto
            have "?resolved \<noteq> browserExternalId"
              using nb sentinel_outside_node_modules by auto
            with gr have pr: "pathWithPostfix ?resolved" by (simp add: goodId_def)
            obtain x where x: "optimizeOrVersion ev d s1 rid importer ssr pkgId (nestedPathOf rid)
                                 ?resolved = x" by simp
            have good: "goodId y" if "x = Return y" for y
              using optimizeOrVersion_good [OF env d pr] x that by blast
            have "tryNodeResolve ev n st rid importer opts tw (e_depsOptimizer ev) ssr ext
              = (case x of
                   Throw e \<Rightarrow> (Throw e, ?st1, s1)
                 | Diverge \<Rightarrow> (Diverge, ?st1, s1)
                 | Return resolved1 \<Rightarrow>
                     (Return (Some \<lparr>res_id = resolved1, res_external = False,
                                    res_moduleSideEffects =
                                      (if o_isBuild s1 then Some (hasSideEffects p1 resolved1)
                                       else None)\<rparr>), ?st1, s1))"
              using run Return True na nb d x by (simp add: Let_def)
            then show ?thesis
              using recorded good by (cases x) (simp_all add: nodeGood_def)
          qed
        qed
      qed
    qed
  qed
qed

subsection \<open>The steps of the orchestrator return good ids\<close>

lemma tryResolveBrowserMapping_good:
  assumes env: "wfEnv ev" and st: "wfState st"
  shows "mappingGood (tryResolveBrowserMapping ev n st rid importer opts isFilePath ext)"
proof (cases "if truthy importer then idToPkgMap st (the importer) else None")
  case None
  then show ?thesis using st by (simp add: tryResolveBrowserMapping_def mappingGood_def)
next
  case (Some pkg)
  then have "idToPkgMap st (the importer) = Some pkg" by (simp split: if_splits)
  then have wf: "wfPkg goodId pkg" using st unfolding wfState_def by blast
  then have d: "isAbsolute (dir pkg)" by (simp add: wfPkg_def)
  have plain: "mappingGood (Return Undefined, st, o1)"
    "mappingGood (Return (IdString browserExternalId), st, o1)"
    "mappingGood (Throw e, st, o1)" "mappingGood (Diverge, st, o1)" for o1 e
    using st by (simp_all add: mappingGood_def)
  have probe: "mappingGood
      (case tryFsResolve ev n (pathJoin (dir pkg) mapped) opts True True of
         (Return res, opts1) \<Rightarrow>
           if truthy res
           then (Return (Resolved \<lparr>res_id = the res, res_external = ext,
                   res_moduleSideEffects = Some (hasSideEffects pkg (the res))\<rparr>),
                 st\<lparr>idToPkgMap := (idToPkgMap st)(the res \<mapsto> pkg)\<rparr>, opts1)
           else (Return Undefined, st, opts1)
       | (Throw e, opts1) \<Rightarrow> (Throw e, st, opts1)
       | (Diverge, opts1) \<Rightarrow> (Diverge, st, opts1))" for mapped
  proof -
    obtain r s1 where run: "tryFsResolve ev n (pathJoin (dir pkg) mapped) opts True True = (r, s1)"
      by (cases "tryFsResolve ev n (pathJoin (dir pkg) mapped) opts True True")
    show ?thesis
    proof (cases r)
      case (Return res)
      show ?thesis
      proof (cases "truthy res")
        case True
        have "goodId (the res)"
          using tryFsResolve_good [OF env pathJoin_absolute [OF d] _ True] run Return
            pathWithPostfix_good by blast
        then show ?thesis
          using run Return True wfState_record [OF st wf] by (simp add: mappingGood_def)
      next
        case False
        then show ?thesis using run Return plain by simp
      qed
    next
      case (Throw e)
      then show ?thesis using run plain by simp
    next
      case Diverge
      then show ?thesis using run plain by simp
    qed
  qed
  show ?thesis
    using Some plain probe
    by (simp add: tryResolveBrowserMapping_def Let_def
        split: option.split browser_field.split browser_value.split)
qed

lemma browserMappingStep_good:
  assumes env: "wfEnv ev" and st: "wfState st"
  shows "stepGood (browserMappingStep ev n st opts rid importer tw isFilePath ext)"
proof -
  obtain r st1 s1 where run:
    "tryResolveBrowserMapping ev n st rid importer opts isFilePath ext = (r, st1, s1)"
    by (cases "tryResolveBrowserMapping ev n st rid importer opts isFilePath ext")
  have "mappingGood (r, st1, s1)"
    using tryResolveBrowserMapping_good [OF env st, of n rid importer opts isFilePath ext] run
    by simp
  then show ?thesis
    using st run
    by (auto simp: browserMappingStep_def stepGood_def mappingGood_def
        split: outcome.split resolve_result.split)
qed

lemma nodeResolveStep_good:
  assumes env: "wfEnv ev" and st: "wfState st"
  shows "stepGood (nodeResolveStep ev n st opts rid importer tw ssr ext)"
proof -
  obtain r st1 s1 where run:
    "tryNodeResolve ev n st rid importer opts tw (e_depsOptimizer ev) ssr ext = (r, st1, s1)"
    by (cases "tryNodeResolve ev n st rid importer opts tw (e_depsOptimizer ev) ssr ext")
  have "nodeGood (r, st1, s1)"
    using tryNodeResolve_good [OF env st, of n rid importer opts tw ssr ext] run by simp
  then show ?thesis
    using run
    by (auto simp: nodeResolveStep_def stepGood_def nodeGood_def
        split: outcome.split option.split)
qed

lemma nodeModulesStep_good:
  assumes env: "wfEnv ev" and st: "wfState st"
  shows "stepGood (nodeModulesStep ev n st opts importer tw ssr basedir nfp)"
proof -
  let ?tail = "sliceFrom (sliceFrom nfp (int (length basedir))) (int (length ''/node_modules/''))"
  obtain r st1 s1 where run:
    "tryNodeResolve ev n st ?tail importer opts tw (e_depsOptimizer ev) ssr False = (r, st1, s1)"
    by (cases "tryNodeResolve ev n st ?tail importer opts tw (e_depsOptimizer ev) ssr False")
  have "nodeGood (r, st1, s1)"
    using tryNodeResolve_good [OF env st, of n ?tail importer opts tw ssr False] run by simp
  then show ?thesis
    using run st
    by (auto simp: nodeModulesStep_def Let_def stepGood_def nodeGood_def
        split: outcome.split option.split)
qed

lemma relativeFsStep_good:
  assumes env: "wfEnv ev" and st: "wfState st" and p: "isAbsolute fsPath"
  shows "stepGood (relativeFsStep ev n st opts importer fsPath)"
proof -
  obtain r s1 where run: "tryFsResolve ev n fsPath opts True True = (r, s1)"
    by (cases "tryFsResolve ev n fsPath opts True True")
  show ?thesis
  proof (cases r)
    case (Return res0)
    show ?thesis
    proof (cases "truthy res0")
      case True
      have g: "goodId (the res0)"
        using tryFsResolve_good [OF env p _ True] run Return pathWithPostfix_good by blast
      show ?thesis
      proof (cases "case importer of Some i \<Rightarrow> idToPkgMap st i | None \<Rightarrow> None")
        case None
        then show ?thesis
          using run Return True st by (simp add: relativeFsStep_def stepGood_def Let_def)
      next
        case (Some pkg)
        then have "\<exists>i. idToPkgMap st i = Some pkg" by (auto split: option.splits)
        then have wf: "wfPkg goodId pkg" using st unfolding wfState_def by blast
        show ?thesis
          using run Return True Some g wfState_record [OF st wf]
          by (simp add: relativeFsStep_def stepGood_def Let_def)
      qed
    next
      case False
      then show ?thesis
        using run Return st by (simp add: relativeFsStep_def stepGood_def)
    qed
  next
    case (Throw e)
    then show ?thesis using run st by (simp add: relativeFsStep_def stepGood_def)
  next
    case Diverge
    then show ?thesis using run st by (simp add: relativeFsStep_def stepGood_def)
  qed
qed

lemma stepGood_state: "stepGood (r, st, opts) \<Longrightarrow> wfState st"
  by (simp add: stepGood_def)

lemma relativeStep_good:
  assumes env: "wfEnv ev" and st: "wfState st"
  shows "stepGood (relativeStep ev n st opts rid importer tw ssr)"
proof (cases "isRelativeSpecifier opts rid importer")
  case False
  then show ?thesis using st by (simp add: relativeStep_def stepGood_def)
next
  case True
  let ?basedir = "if truthy importer then dirname (the importer) else cwd (e_fs ev)"
  let ?fsPath = "pathResolve (cwd (e_fs ev)) ?basedir rid"
  let ?nfp = "normalizePath (e_ut ev) ?fsPath"
  have p: "isAbsolute ?fsPath"
    using env by (simp add: wfEnv_def pathResolve_absolute)
  show ?thesis
  proof (cases "case e_depsOptimizer ev of Some d \<Rightarrow> isOptimizedDepFile d ?nfp | None \<Rightarrow> False")
    case opt: True
    have "\<forall>res. optimizedDepFileId ev d ssr ?nfp \<noteq> Return (Resolved res)" for d
      by (simp add: optimizedDepFileId_def split: option.split)
    then show ?thesis
      using True opt st by (simp add: relativeStep_def Let_def stepGood_def)
  next
    case False
    obtain r1 st1 s1 where nm:
      "nodeModulesStep ev n st opts importer tw ssr ?basedir ?nfp = (r1, st1, s1)"
      by (cases "nodeModulesStep ev n st opts importer tw ssr ?basedir ?nfp")
    have g1: "stepGood (r1, st1, s1)"
      using nodeModulesStep_good [OF env st, of n opts importer tw ssr ?basedir ?nfp] nm by simp
    then have st1: "wfState st1" by (rule stepGood_state)
    obtain r2 st2 s2 where bm:
      "browserMappingStep ev n st1 s1 ?fsPath importer tw True False = (r2, st2, s2)"
      by (cases "browserMappingStep ev n st1 s1 ?fsPath importer tw True False")
    have g2: "stepGood (r2, st2, s2)"
      using browserMappingStep_good [OF env st1, of n s1 ?fsPath importer tw True False] bm
      by simp
    then have st2: "wfState st2" by (rule stepGood_state)
    have g3: "stepGood (relativeFsStep ev n st2 s2 importer ?fsPath)"
      using relativeFsStep_good [OF env st2 p] .
    have "relativeStep ev n st opts rid importer tw ssr
            \<in> {(r1, st1, s1), (r2, st2, s2), relativeFsStep ev n st2 s2 importer ?fsPath}"
      using True False nm bm
      by (simp add: relativeStep_def Let_def split: option.split split del: if_split)
    then show ?thesis using g1 g2 g3 by auto
  qed
qed

lemma orStep_good:
  assumes "stepGood r" and "\<And>st opts. wfState st \<Longrightarrow> resultGood (k st opts)"
  shows "resultGood (orStep r k)"
  using assms
  by (cases r) (auto simp: orStep_def stepGood_def resultGood_def split: option.splits)

lemma fsStep_good:
  "wfState st \<Longrightarrow> stepGood (fsStep ev n st opts fsPath)"
  by (auto simp: fsStep_def stepGood_def split: prod.split outcome.split)

lemma optimizedStep_good:
  "wfState st \<Longrightarrow> stepGood (optimizedStep ev st opts rid importer ssr ext)"
  by (simp add: optimizedStep_def stepGood_def Let_def)

lemma builtinResult_external:
  "builtinResult ev opts rid importer ssr = Return (Resolved res) \<Longrightarrow> res_external res"
  by (auto simp: builtinResult_def split: if_splits)

lemma bareStep_good:
  assumes env: "wfEnv ev" and st: "wfState st"
  shows "resultGood (bareStep ev n st opts rid importer tw ssr)"
proof (cases "bareImportRE (e_ut ev) rid")
  case False
  then show ?thesis using st by (simp add: bareStep_def resultGood_def)
next
  case True
  let ?ext = "case o_shouldExternalize opts of Some f \<Rightarrow> f rid | None \<Rightarrow> False"
  have last: "resultGood (if isBuiltin (e_ut ev) rid
                then (builtinResult ev opts3 rid importer ssr, st3)
                else (Return Undefined, st3))" if "wfState st3" for opts3 st3
    using builtinResult_external that by (auto simp: resultGood_def)
  have "resultGood
          (orStep (optimizedStep ev st opts rid importer ssr ?ext)
             (\<lambda>st1 opts1.
                orStep (browserMappingStep ev n st1 opts1 rid importer tw False ?ext)
                  (\<lambda>st2 opts2.
                     orStep (nodeResolveStep ev n st2 opts2 rid importer tw ssr ?ext)
                       (\<lambda>st3 opts3.
                          if isBuiltin (e_ut ev) rid
                          then (builtinResult ev opts3 rid importer ssr, st3)
                          else (Return Undefined, st3)))))"
    by (intro orStep_good optimizedStep_good browserMappingStep_good nodeResolveStep_good
        env st last)
  then show ?thesis using True by (simp add: bareStep_def Let_def)
qed

lemma resolveId_good:
  assumes env: "wfEnv ev" and st: "wfState st"
  shows "resultGood (resolveId ev n resolveOptions st rid importer resolveOpts)"
proof -
  let ?ssr = "ro_ssr resolveOpts"
  let ?tw = "\<not> ?ssr \<or> o_ssrTarget resolveOptions = Some ''webworker''"
  let ?o = "perCallOptions ev resolveOptions importer resolveOpts"
  have strings: "resultGood (Return (IdString x), st)" "resultGood (Return Undefined, st)"
    "resultGood (Return Null, st)" for x
    using st by (simp_all add: resultGood_def)
  have fsPrefix: "resultGood (fsPrefixStep ev n st ?o rid)"
    using st by (auto simp: fsPrefixStep_def Let_def resultGood_def split: prod.split outcome.split)
  have tail: "resultGood
       (if isExternalUrl (e_ut ev) rid
        then (Return (Resolved \<lparr>res_id = rid, res_external = True,
                                res_moduleSideEffects = None\<rparr>), st3)
        else if isDataUrl (e_ut ev) rid then (Return Null, st3)
        else bareStep ev n st3 opts3 rid importer ?tw ?ssr)" if "wfState st3" for st3 opts3
    using bareStep_good [OF env that] that by (simp add: resultGood_def)
  have first: "stepGood (if o_asSrc resolveOptions \<and> startsWith rid ''/''
                 then fsStep ev n st ?o
                        (pathResolve (cwd (e_fs ev)) (o_root resolveOptions) (sliceFrom rid 1))
                 else (None, st, ?o))"
    using fsStep_good [OF st] st by (simp add: stepGood_def)
  have third: "stepGood (if isAbsolute rid then fsStep ev n st2 opts2 rid else (None, st2, opts2))"
    if "wfState st2" for st2 opts2
    using fsStep_good [OF that] that by (simp add: stepGood_def)
  have chain: "resultGood
       (orStep (if o_asSrc resolveOptions \<and> startsWith rid ''/''
                then fsStep ev n st ?o
                       (pathResolve (cwd (e_fs ev)) (o_root resolveOptions) (sliceFrom rid 1))
                else (None, st, ?o))
          (\<lambda>st1 opts1.
             orStep (relativeStep ev n st1 opts1 rid importer ?tw ?ssr)
               (\<lambda>st2 opts2.
                  orStep (if isAbsolute rid then fsStep ev n st2 opts2 rid
                          else (None, st2, opts2))
                    (\<lambda>st3 opts3.
                       if isExternalUrl (e_ut ev) rid
                       then (Return (Resolved \<lparr>res_id = rid, res_external = True,
                                               res_moduleSideEffects = None\<rparr>), st3)
                       else if isDataUrl (e_ut ev) rid then (Return Null, st3)
                       else bareStep ev n st3 opts3 rid importer ?tw ?ssr))))"
    by (intro orStep_good first relativeStep_good third tail env)
  have branch: "resultGood (if c then x else y)" if "resultGood x" and "resultGood y"
    for c x y using that by simp
  show ?thesis
    unfolding resolveId_def Let_def
    by (intro branch strings fsPrefix chain)
qed

subsection \<open>A query injected into a path\<close>

lemma normalSegments_replace:
  assumes n: "normalSegments (X @ [m] @ Y)" and c: "cleanSegment m'"
  shows "normalSegments (X @ [m'] @ Y)"
proof (cases "Y = []")
  case True
  then show ?thesis using n c by (simp add: normalSegments_def)
next
  case False
  then have b: "butlast (X @ [k] @ Y) = X @ [k] @ butlast Y" "last (X @ [k] @ Y) = last Y" for k
    by (simp_all add: butlast_append)
  show ?thesis using n c unfolding normalSegments_def b by auto
qed

lemma insert_absoluteNormalized:
  assumes a: "absoluteNormalized (u @ v)" and u: "u \<noteq> []"
    and ns: "CHR ''/'' \<notin> set ins" and nd: "\<exists>c \<in> set ins. c \<noteq> CHR ''.''"
  shows "absoluteNormalized (u @ ins @ v)"
proof -
  have "isAbsolute (u @ v)" using a by (simp add: absoluteNormalized_def)
  then obtain u' where u': "u = CHR ''/'' # u'"
    using u by (cases u) (simp_all add: isAbsolute_def)
  let ?A = "splitOn CHR ''/'' u'" and ?B = "splitOn CHR ''/'' v"
  have A: "?A \<noteq> []" and B: "?B \<noteq> []" by (rule splitOn_nonempty)+
  have old: "splitOn CHR ''/'' (u' @ v) = butlast ?A @ [last ?A @ hd ?B] @ tl ?B"
    by (rule splitOn_append)
  have "splitOn CHR ''/'' (ins @ v) = [ins @ hd ?B] @ tl ?B"
    using splitOn_append [of "CHR ''/''" ins v] splitOn_plain [OF ns] by simp
  then have new: "splitOn CHR ''/'' (u' @ ins @ v) = butlast ?A @ [last ?A @ ins @ hd ?B] @ tl ?B"
    using splitOn_append [of "CHR ''/''" u' "ins @ v"] by simp
  have n: "normalSegments (butlast ?A @ [last ?A @ hd ?B] @ tl ?B)"
    using absolute_normalSegments [OF a] u' old by simp
  have "last ?A \<in> set ?A" "hd ?B \<in> set ?B" using A B by simp_all
  then have sep: "CHR ''/'' \<notin> set (last ?A)" "CHR ''/'' \<notin> set (hd ?B)"
    using splitOn_no_sep by blast+
  obtain c where c: "c \<in> set ins" "c \<noteq> CHR ''.''" using nd by blast
  have dots: "s = ''.'' \<or> s = ''..'' \<Longrightarrow> \<forall>x \<in> set s. x = CHR ''.''" for s by auto
  have "cleanSegment (last ?A @ ins @ hd ?B)"
    unfolding cleanSegment_def using sep ns c dots [of "last ?A @ ins @ hd ?B"] by auto
  then have "normalSegments (butlast ?A @ [last ?A @ ins @ hd ?B] @ tl ?B)"
    using normalSegments_replace [OF n] by blast
  then have "absoluteNormalized (CHR ''/'' # u' @ ins @ v)"
    using normalSegments_absolute [of "u' @ ins @ v"] new by simp
  then show ?thesis using u' by simp
qed

lemma injected_tail:
  assumes "rest = [] \<or> hd rest = CHR ''?'' \<or> hd rest = CHR ''#''"
  shows "(if takeWhile (\<lambda>c. c \<noteq> CHR ''#'') rest \<noteq> []
          then ''&'' @ tl (takeWhile (\<lambda>c. c \<noteq> CHR ''#'') rest) else [])
         @ dropWhile (\<lambda>c. c \<noteq> CHR ''#'') rest
         = (if rest \<noteq> [] \<and> hd rest = CHR ''?'' then ''&'' @ tl rest else rest)"
  using assms by (cases rest) auto

lemma posixInjectQuery_shape:
  "posixInjectQuery x q =
     takeWhile (\<lambda>c. c \<noteq> CHR ''?'' \<and> c \<noteq> CHR ''#'') x @ ''?'' @ q
     @ (let rest = dropWhile (\<lambda>c. c \<noteq> CHR ''?'' \<and> c \<noteq> CHR ''#'') x
        in if rest \<noteq> [] \<and> hd rest = CHR ''?'' then ''&'' @ tl rest else rest)"
proof -
  let ?P = "\<lambda>c. c \<noteq> CHR ''?'' \<and> c \<noteq> CHR ''#''"
  let ?rest = "dropWhile ?P x"
  have m: "?rest = [] \<or> hd ?rest = CHR ''?'' \<or> hd ?rest = CHR ''#''"
    using hd_dropWhile [of ?P x] by auto
  have "posixInjectQuery x q =
          takeWhile ?P x @ ''?'' @ q
          @ (if takeWhile (\<lambda>c. c \<noteq> CHR ''#'') ?rest \<noteq> []
             then ''&'' @ tl (takeWhile (\<lambda>c. c \<noteq> CHR ''#'') ?rest) else [])
          @ dropWhile (\<lambda>c. c \<noteq> CHR ''#'') ?rest"
    by (simp only: posixInjectQuery_def posixCleanUrl_def Let_def dropWhile_eq_drop [symmetric])
  then show ?thesis
    by (simp only: injected_tail [OF m] Let_def)
qed

lemma posixInjectQuery_good:
  assumes x: "pathWithPostfix x" and q: "CHR ''/'' \<notin> set q"
  shows "pathWithPostfix (posixInjectQuery x q)"
proof -
  let ?P = "\<lambda>c. c \<noteq> CHR ''?'' \<and> c \<noteq> CHR ''#''"
  obtain a b where ab: "x = a @ b" and a: "absoluteNormalized a" and b: "isPostfix b"
    using x pathWithPostfix_iff by blast
  have abs: "isAbsolute a" using a by (simp add: absoluteNormalized_def)
  show ?thesis
  proof (cases "\<forall>c \<in> set a. ?P c")
    case True
    have tb: "takeWhile ?P b = []" "dropWhile ?P b = b"
      using b by (cases b; auto simp: isPostfix_def)+
    have t: "takeWhile ?P x = a" "dropWhile ?P x = b"
      using True ab tb by (simp_all add: takeWhile_append2 dropWhile_append2)
    have "isPostfix (''?'' @ q @ (if b \<noteq> [] \<and> hd b = CHR ''?'' then ''&'' @ tl b else b))"
      by (simp add: isPostfix_def)
    then have "pathWithPostfix
                 (a @ ''?'' @ q @ (if b \<noteq> [] \<and> hd b = CHR ''?'' then ''&'' @ tl b else b))"
      using a pathWithPostfix_iff by blast
    then show ?thesis by (simp add: posixInjectQuery_shape t Let_def)
  next
    case False
    then obtain c where c: "c \<in> set a" "\<not> ?P c" by blast
    let ?u = "takeWhile ?P a" and ?r = "dropWhile ?P a"
    have t: "takeWhile ?P x = ?u" "dropWhile ?P x = ?r @ b"
      using c ab by (simp_all add: takeWhile_append1 dropWhile_append1)
    have rne: "?r \<noteq> []" using c by (auto simp: dropWhile_eq_Nil_conv)
    have hm: "\<not> ?P (hd ?r)" using rne hd_dropWhile by blast
    have ur: "?u @ ?r = a" by simp
    have une: "?u \<noteq> []"
      using abs by (cases a) (simp_all add: isAbsolute_def)
    have ins: "absoluteNormalized (?u @ i @ ?r)"
      if "CHR ''/'' \<notin> set i" "\<exists>c \<in> set i. c \<noteq> CHR ''.''" for i
      using insert_absoluteNormalized [OF _ une that] a ur by simp
    show ?thesis
    proof (cases "hd ?r = CHR ''?''")
      case True
      then have r: "?r = CHR ''?'' # tl ?r" using rne by (metis list.collapse)
      have "absoluteNormalized ((?u @ ''?'') @ (q @ ''&'') @ tl ?r)"
      proof (rule insert_absoluteNormalized)
        show "absoluteNormalized ((?u @ ''?'') @ tl ?r)" using a ur r by (metis append.assoc append_Cons append_Nil)
        show "?u @ ''?'' \<noteq> []" by simp
        show "CHR ''/'' \<notin> set (q @ ''&'')" using q by simp
        show "\<exists>c \<in> set (q @ ''&''). c \<noteq> CHR ''.''" by simp
      qed
      then have "pathWithPostfix (((?u @ ''?'') @ (q @ ''&'') @ tl ?r) @ b)"
        using b pathWithPostfix_iff by blast
      moreover have "posixInjectQuery x q = ((?u @ ''?'') @ (q @ ''&'') @ tl ?r) @ b"
        using True rne by (simp add: posixInjectQuery_shape t Let_def)
      ultimately show ?thesis by simp
    next
      case False
      have "absoluteNormalized (?u @ (''?'' @ q) @ ?r)"
        using ins [of "''?'' @ q"] q by simp
      then have "pathWithPostfix ((?u @ (''?'' @ q) @ ?r) @ b)"
        using b pathWithPostfix_iff by blast
      moreover have "posixInjectQuery x q = (?u @ (''?'' @ q) @ ?r) @ b"
        using False rne by (simp add: posixInjectQuery_shape t Let_def)
      ultimately show ?thesis by simp
    qed
  qed
qed

subsection \<open>Deep imports that the exports field does not define\<close>

lemma resolveDeepImport_not_exported:
  assumes "\<not> truthy (getResolvedCache pkg rid targetWeb)"
    and "d_exports (data pkg) = Some x" and "jsonTruthy x"
    and "\<not> isObject x
         \<or> resolveExports ev (data pkg) (fst (splitFileAndPostfix rid)) options targetWeb = Inr None"
  shows "resolveDeepImport ev n rid pkg targetWeb options
           = (Throw (subpathNotDefined None (dir pkg)), pkg, options)"
  using assms by (auto simp: resolveDeepImport_def truthy_def split: prod.splits)

subsection \<open>The sniff of the browser entry\<close>






subsection \<open>Well-formed environments\<close>

lemma stripped_absolute:
  assumes a: "isAbsolute p" and e: "endsWith p (c # ext)" and c: "c \<noteq> CHR ''/''"
  shows "isAbsolute (stripExtension (c # ext) p @ q)"
proof -
  have le: "length (c # ext) \<le> length p" and d: "drop (length p - length (c # ext)) p = c # ext"
    using e by (auto simp: endsWith_def)
  have "length p \<noteq> length (c # ext)"
  proof
    assume "length p = length (c # ext)"
    with d have "p = c # ext" by simp
    with a c show False by (simp add: isAbsolute_def)
  qed
  with le have "0 < length p - length (c # ext)" by simp
  then have "isAbsolute (take (length p - length (c # ext)) p)"
    using a by (simp add: isAbsolute_def hd_take)
  then show ?thesis by (simp add: stripExtension_def isAbsolute_append)
qed

lemma posixTsSrcPaths_absolute:
  "isAbsolute p \<Longrightarrow> \<forall>src \<in> set (posixTsSrcPaths p). isAbsolute src"
  by (auto simp: posixTsSrcPaths_def stripped_absolute)

lemma posixNormalize_absoluteNormalized:
  "isAbsolute p \<Longrightarrow> absoluteNormalized (posixNormalize p)"
  by (simp add: absoluteNormalized_def posixNormalize_absolute posixNormalize_idem)

lemma wfPkg_fresh: "isAbsolute d \<Longrightarrow> wfPkg P (freshPackage d m)"
  by (simp add: wfPkg_def freshPackage_def)

lemma wfEntryCache_fresh: "isAbsolute d \<Longrightarrow> wfEntryCache (freshPackage d m)"
  by (simp add: wfEntryCache_def freshPackage_def)

lemma flattenArrows_no_slash:
  "CHR ''/'' \<notin> set pending \<Longrightarrow> CHR ''/'' \<notin> set s
    \<Longrightarrow> CHR ''/'' \<notin> set (flattenArrows afterArrow pending s)"
  by (induction s arbitrary: afterArrow pending) simp_all

lemma flattenId_no_slash: "CHR ''/'' \<notin> set (flattenId rid)"
proof -
  let ?m = "concat (map (\<lambda>c. if c = CHR ''/'' \<or> c = CHR '':'' then ''_''
                               else if c = CHR ''.'' then ''__'' else [c]) rid)"
  have "CHR ''/'' \<notin> set ?m" by (induction rid) auto
  then show ?thesis
    unfolding flattenId_def by (intro flattenArrows_no_slash) simp_all
qed

lemma optimizedFile_normal:
  assumes "CHR ''/'' \<notin> set f"
  shows "absoluteNormalized (''/p/node_modules/.vite/deps/'' @ f @ ''.js'')"
proof -
  have fl: "CHR ''/'' \<notin> set (f @ ''.js'')" using assms by simp
  have s: "splitOn CHR ''/'' (''p/node_modules/.vite/deps/'' @ f @ ''.js'')
             = [''p'', ''node_modules'', ''.vite'', ''deps'', f @ ''.js'']"
    using splitOn_append_sep [of "CHR ''/''" "''p''" "''node_modules/.vite/deps/'' @ f @ ''.js''"]
      splitOn_append_sep [of "CHR ''/''" "''node_modules''" "''.vite/deps/'' @ f @ ''.js''"]
      splitOn_append_sep [of "CHR ''/''" "''.vite''" "''deps/'' @ f @ ''.js''"]
      splitOn_append_sep [of "CHR ''/''" "''deps''" "f @ ''.js''"]
      splitOn_plain [OF fl]
    by (simp del: splitOn.simps)
  have c: "cleanSegment (f @ ''.js'')"
    using assms by (cases f rule: rev_cases) (auto simp: cleanSegment_def)
  have "normalSegments [''p'', ''node_modules'', ''.vite'', ''deps'', f @ ''.js'']"
    using c by (simp add: normalSegments_def cleanSegment_def)
  then show ?thesis
    using normalSegments_absolute [of "''p/node_modules/.vite/deps/'' @ f @ ''.js''"] s
    by simp
qed

lemma nestedOptimizer_registered:
  "goodId (getOptimizedDepId nestedOptimizer (registerMissingImport nestedOptimizer rid resolved ssr))"
proof -
  have "isPostfix ''?v=abc''" by (simp add: isPostfix_def)
  then have "pathWithPostfix ((''/p/node_modules/.vite/deps/'' @ flattenId rid @ ''.js'') @ ''?v=abc'')"
    using optimizedFile_normal [OF flattenId_no_slash, of rid] pathWithPostfix_iff by blast
  then show ?thesis
    by (simp add: nestedOptimizer_def goodId_def)
qed

lemma nestedOptimizer_injected:
  assumes "metadata nestedOptimizer ssr = Some md" and "pathWithPostfix x"
  shows "goodId (injectQuery posixUtils x (''v='' @ browserHash md))"
proof -
  have "browserHash md = ''abc''" using assms(1) by (auto simp: nestedOptimizer_def)
  then have "CHR ''/'' \<notin> set (''v='' @ browserHash md)" by simp
  from posixInjectQuery_good [OF assms(2) this] show ?thesis
    by (simp add: posixUtils_def goodId_def)
qed

lemma listedPackages_wf:
  assumes "\<forall>d \<in> set (map fst manifests). isAbsolute d"
  shows "loadPackageData (listedPackages manifests installed) pkgPath b = Inr pkg
           \<Longrightarrow> wfEntryCache pkg"
    and "resolvePackageData (listedPackages manifests installed) pkgId basedir b = Some pkg
           \<Longrightarrow> wfPkg goodId pkg"
proof -
  have key: "isAbsolute d" if "map_of manifests d = Some m" for d m
    using assms map_of_SomeD [OF that] by force
  show "loadPackageData (listedPackages manifests installed) pkgPath b = Inr pkg
           \<Longrightarrow> wfEntryCache pkg"
    using key by (auto simp: listedPackages_def wfEntryCache_fresh split: option.splits)
  show "resolvePackageData (listedPackages manifests installed) pkgId basedir b = Some pkg
           \<Longrightarrow> wfPkg goodId pkg"
    using key by (auto simp: listedPackages_def wfPkg_fresh split: option.splits)
qed

lemma wfEnv_posix:
  assumes wd: "isAbsolute wd"
    and load: "\<And>pkgPath b pkg. loadPackageData pk pkgPath b = Inr pkg
                 \<Longrightarrow> wfEntryCache pkg"
    and res: "\<And>pkgId basedir b pkg. resolvePackageData pk pkgId basedir b = Some pkg
                 \<Longrightarrow> wfPkg goodId pkg"
    and opt: "optimizer = None \<or> optimizer = Some nestedOptimizer"
  shows "wfEnv ((plainEnv (listedFs files dirs wd) pk)\<lparr>e_depsOptimizer := optimizer\<rparr>)"
proof -
  let ?ev = "(plainEnv (listedFs files dirs wd) pk)\<lparr>e_depsOptimizer := optimizer\<rparr>"
  have real: "absoluteNormalized (getRealPath ?ev p b)" if "isAbsolute p" for p b
    using that posixNormalize_absoluteNormalized posixNormalize_absolute
    by (simp add: getRealPath_def plainEnv_def posixUtils_def listedFs_def Let_def)
  have ts: "\<forall>src \<in> set (getPotentialTsSrcPaths (e_ut ?ev) p). isAbsolute src"
    if "isAbsolute p" for p
    using posixTsSrcPaths_absolute [OF that] by (simp add: plainEnv_def posixUtils_def)
  have c: "isAbsolute (cwd (e_fs ?ev))" "e_pk ?ev = pk" "e_depsOptimizer ?ev = optimizer"
    "e_ut ?ev = posixUtils"
    using wd by (simp_all add: plainEnv_def listedFs_def Let_def)
  have o: "case optimizer of
             None \<Rightarrow> True
           | Some d \<Rightarrow>
               (\<forall>rid resolved ssr.
                  goodId (getOptimizedDepId d (registerMissingImport d rid resolved ssr)))
               \<and> (\<forall>ssr md x. metadata d ssr = Some md \<longrightarrow> pathWithPostfix x
                     \<longrightarrow> goodId (injectQuery posixUtils x (''v='' @ browserHash md)))"
    using opt nestedOptimizer_registered nestedOptimizer_injected by auto
  show ?thesis
    unfolding wfEnv_def
  proof (intro conjI)
    show "isAbsolute (cwd (e_fs ?ev))" by (rule c(1))
    show "\<forall>p preserveSymlinks. isAbsolute p
            \<longrightarrow> absoluteNormalized (getRealPath ?ev p preserveSymlinks)"
      using real by blast
    show "\<forall>p. isAbsolute p
            \<longrightarrow> (\<forall>src \<in> set (getPotentialTsSrcPaths (e_ut ?ev) p). isAbsolute src)"
      using ts by blast
    show "\<forall>pkgPath preserveSymlinks pkg.
            loadPackageData (e_pk ?ev) pkgPath preserveSymlinks = Inr pkg
              \<longrightarrow> wfEntryCache pkg"
      unfolding c(2) using load by blast
    show "\<forall>pkgId basedir preserveSymlinks pkg.
            resolvePackageData (e_pk ?ev) pkgId basedir preserveSymlinks = Some pkg
              \<longrightarrow> wfPkg goodId pkg"
      unfolding c(2) using res by blast
    show "case e_depsOptimizer ?ev of
            None \<Rightarrow> True
          | Some depsOptimizer \<Rightarrow>
              (\<forall>rid resolved ssr.
                 goodId (getOptimizedDepId depsOptimizer
                           (registerMissingImport depsOptimizer rid resolved ssr)))
              \<and> (\<forall>ssr md x.
                    metadata depsOptimizer ssr = Some md \<longrightarrow> pathWithPostfix x
                      \<longrightarrow> goodId (injectQuery (e_ut ?ev) x (''v='' @ browserHash md)))"
      unfolding c(3,4) by (rule o)
  qed
qed

lemma plainEnv_no_optimizer: "(plainEnv f pk)\<lparr>e_depsOptimizer := None\<rparr> = plainEnv f pk"
  by (simp add: plainEnv_def)

lemma wfEnv_hashEnv: "wfEnv hashEnv"
proof -
  have "wfEnv ((plainEnv (listedFs [(''/p/main.js'', ''import x''), (''/p/d'', ''export default 1'')]
                   [''/p'', ''/p/d#y''] ''/p'') (listedPackages [(''/p'', plainManifest)] []))
                 \<lparr>e_depsOptimizer := None\<rparr>)"
    by (rule wfEnv_posix) (auto simp: isAbsolute_def elim!: listedPackages_wf [rotated])
  then show ?thesis by (simp add: hashEnv_def plainEnv_no_optimizer)
qed

lemma wfEnv_optimizedFooEnv: "wfEnv optimizedFooEnv"
  unfolding optimizedFooEnv_def fooEnv_def
  by (rule wfEnv_posix) (auto simp: isAbsolute_def elim!: listedPackages_wf [rotated])

lemma wfEnv_nestedEnv: "wfEnv nestedEnv"
  unfolding nestedEnv_def
  by (rule wfEnv_posix) (auto simp: isAbsolute_def listedPackages_def split: option.splits)

lemma wfState_hashState: "wfState hashState"
  by (simp add: wfState_def hashState_def emptyState_def wfPkg_fresh isAbsolute_def)

lemma wfState_emptyState: "wfState emptyState"
  by (simp add: wfState_def emptyState_def)

lemma optimizedFooEnv_client:
  "fst (resolveId optimizedFooEnv 4 (defaultOptions ''/p'') emptyState ''foo'' None clientCall)
     = Return (Resolved \<lparr>res_id = ''/p/node_modules/.vite/deps/foo.js?v=abc'',
                          res_external = False, res_moduleSideEffects = None\<rparr>)"
  by code_simp

lemma optimizedFooEnv_ssr:
  "fst (resolveId optimizedFooEnv 4 (defaultOptions ''/p'') emptyState ''foo'' None ssrCall)
     = Return (Resolved \<lparr>res_id = ''/p/node_modules/foo/foo.mjs?v=abc'',
                          res_external = False, res_moduleSideEffects = None\<rparr>)"
  by code_simp

lemma hashEnv_run:
  "fst (resolveId hashEnv 4 (defaultOptions ''/p'') hashState ''./d#y/?x'' (Some ''/p/main.js'')
          clientCall)
     = Return (Resolved \<lparr>res_id = ''/p/d#y//index?x'', res_external = False,
                          res_moduleSideEffects = Some True\<rparr>)"
  by code_simp

lemma hashEnv_id:
  "\<not> absoluteNormalized ''/p/d#y//index?x''" "''/p/d#y//index?x'' \<noteq> browserExternalId"
  "absoluteNormalized ''/p/d''" "isPostfix ''#y//index?x''"
  by code_simp+

lemma resolveId_wfState:
  "wfEnv ev \<Longrightarrow> wfState st
    \<Longrightarrow> wfState (snd (resolveId ev n resolveOptions st rid importer resolveOpts))"
  using resolveId_good [of ev st n resolveOptions rid importer resolveOpts]
  by (simp add: resultGood_def)

section \<open>Claims\<close>

text \<open>
  C3, as the specification states it, fails in its third example: for the specifier
  \<open>a.b/c\<close> the candidate package ids are said to be \<open>["a.b"]\<close>. The loop skips a part with
  a filename extension only after the first part; \<open>c\<close> has no extension, so \<open>a.b/c\<close> is a
  candidate as well.
\<close>

theorem C3_dotted_name_counterexample:
  "possiblePkgIdsOf ''a.b/c'' = [''a.b'', ''a.b/c''] \<and> possiblePkgIdsOf ''a.b/c'' \<noteq> [''a.b'']"
  by code_simp

text \<open>
  C3, amended: the decomposition of \<open>tryNodeResolve\<close> gives \<open>["@scope/a", "@scope/a/b"]\<close>
  for \<open>@scope/a/b/c.js\<close>, \<open>["a", "a/b"]\<close> for \<open>a/b/c.js\<close>, and \<open>["a.b", "a.b/c"]\<close> for
  \<open>a.b/c\<close>.
\<close>

theorem C3_possiblePkgIds_amended:
  "possiblePkgIdsOf ''@scope/a/b/c.js'' = [''@scope/a'', ''@scope/a/b'']
   \<and> possiblePkgIdsOf ''a/b/c.js'' = [''a'', ''a/b'']
   \<and> possiblePkgIdsOf ''a.b/c'' = [''a.b'', ''a.b/c'']"
  by code_simp

text \<open>
  C10: when \<open>tryOptimizedResolve\<close> is called without an importer and the metadata of the
  optimizer does not list the id directly, the result is \<open>undefined\<close>, whatever
  \<open>depInfoList\<close> holds; with an importer the result is that of the search through
  \<open>depInfoList\<close>.
\<close>

theorem C10_nested_search_needs_importer:
  assumes "metadata depsOptimizer ssr = Some md"
    and "optimizedDepInfoFromId depsOptimizer md rid = None"
  shows "(\<not> truthy importer \<longrightarrow> tryOptimizedResolve ev depsOptimizer ssr rid importer = None)
    \<and> (truthy importer \<longrightarrow>
         tryOptimizedResolve ev depsOptimizer ssr rid importer
           = nestedDepSearch ev depsOptimizer rid (the importer) None (depInfoList md))"
  using assms by (simp add: tryOptimizedResolve_def)

theorem C10_nested_search_needs_importer_witness:
  "metadata nestedOptimizer False = Some \<lparr>browserHash = ''abc'', depInfoList = [nestedDepInfo]\<rparr>
   \<and> optimizedDepInfoFromId nestedOptimizer
        \<lparr>browserHash = ''abc'', depInfoList = [nestedDepInfo]\<rparr> ''foo'' = None
   \<and> \<not> truthy None
   \<and> tryOptimizedResolve nestedEnv nestedOptimizer False ''foo'' None = None
   \<and> truthy (Some ''/p/node_modules/my-lib/index.js'')
   \<and> tryOptimizedResolve nestedEnv nestedOptimizer False ''foo''
        (Some ''/p/node_modules/my-lib/index.js'')
      = Some ''/p/node_modules/.vite/deps/my-lib___foo.js?v=abc''"
proof -
  have md: "metadata nestedOptimizer False
              = Some \<lparr>browserHash = ''abc'', depInfoList = [nestedDepInfo]\<rparr>"
    by (simp add: nestedOptimizer_def)
  have direct: "optimizedDepInfoFromId nestedOptimizer
                  \<lparr>browserHash = ''abc'', depInfoList = [nestedDepInfo]\<rparr> ''foo'' = None"
    by (simp add: nestedOptimizer_def nestedDepInfo_def)
  have search: "nestedDepSearch nestedEnv nestedOptimizer ''foo''
                  ''/p/node_modules/my-lib/index.js'' None [nestedDepInfo]
                = Some ''/p/node_modules/.vite/deps/my-lib___foo.js?v=abc''"
    by code_simp
  show ?thesis
    using C10_nested_search_needs_importer [OF md direct, of None nestedEnv]
      C10_nested_search_needs_importer
        [OF md direct, of "Some ''/p/node_modules/my-lib/index.js''" nestedEnv]
      md direct search
    by (simp add: truthy_def)
qed

text \<open>
  C2: where the \<open>exports\<close> field of a package is a string or an array, no deep import is
  defined, and \<open>resolveDeepImport\<close> raises an error that names the manifest path but not the
  requested subpath: the template interpolates \<open>relativeId\<close>, which has just been set to
  \<open>undefined\<close>. For package \<open>bar\<close> with \<open>exports: "./lib/sub.js"\<close>, or with
  \<open>exports: ["./lib/sub.js"]\<close>, and the subpath \<open>./other\<close> the message names the subpath
  \<open>undefined\<close>. (Where \<open>exports\<close> is a plain object, the error of a subpath it does not define
  is the one \<open>resolve.exports\<close> throws, which \<open>resolveDeepImport\<close> does not catch.)
\<close>

theorem C2_subpath_missing_from_message:
  "fst (resolveDeepImport barEnv 2 ''./other''
          (freshPackage ''/p/node_modules/bar'' barStringManifest) True (defaultOptions ''/p''))
     = Throw (Error None
         (''Package subpath '' @ [CHR 0x27] @ ''undefined'' @ [CHR 0x27]
          @ '' is not defined by \"exports\" in /p/node_modules/bar/package.json.''))
   \<and> fst (resolveDeepImport barEnv 2 ''./other''
          (freshPackage ''/p/node_modules/bar'' barArrayManifest) True (defaultOptions ''/p''))
     = Throw (Error None
         (''Package subpath '' @ [CHR 0x27] @ ''undefined'' @ [CHR 0x27]
          @ '' is not defined by \"exports\" in /p/node_modules/bar/package.json.''))
   \<and> \<not> strIncludes
          (''Package subpath '' @ [CHR 0x27] @ ''undefined'' @ [CHR 0x27]
           @ '' is not defined by \"exports\" in /p/node_modules/bar/package.json.'')
          ''./other''"
  by code_simp

text \<open>
  C4, as the specification states it, fails: for a path holding both markers the postfix is
  said to start at whichever of \<open>?\<close> and \<open>#\<close> comes first. The function looks for \<open>?\<close>
  first and turns to \<open>#\<close> only when there is no \<open>?\<close>, so for \<open>a#b?c\<close> the postfix is
  \<open>?c\<close> and not \<open>#b?c\<close>.
\<close>

theorem C4_first_marker_counterexample:
  "CHR ''?'' \<in> set ''a#b?c'' \<and> CHR ''#'' \<in> set ''a#b?c''
   \<and> splitFileAndPostfix ''a#b?c'' = (''a#b'', ''?c'')
   \<and> spec_postfix ''a#b?c'' = ''#b?c''
   \<and> snd (splitFileAndPostfix ''a#b?c'') \<noteq> spec_postfix ''a#b?c''"
  by (simp add: splitFileAndPostfix_def spec_postfix_def indexOf_def indexOfFrom_def slice_def
      sliceFrom_def clampIndex_def Let_def)

text \<open>
  C4, amended: for every path, file and postfix concatenate to the path and the postfix is
  empty or begins with \<open>?\<close> or \<open>#\<close>. When the path contains a \<open>?\<close> the postfix is
  everything from the first \<open>?\<close> (inclusive), also when a \<open>#\<close> stands before it; a \<open>#\<close>
  starts the postfix only when the path has no \<open>?\<close>. A marker at index 0 starts no
  postfix.
\<close>

theorem C4_splitFileAndPostfix_amended:
  "fst (splitFileAndPostfix s) @ snd (splitFileAndPostfix s) = s
   \<and> (snd (splitFileAndPostfix s) = [] \<or> hd (snd (splitFileAndPostfix s)) = CHR ''?''
        \<or> hd (snd (splitFileAndPostfix s)) = CHR ''#'')
   \<and> (CHR ''?'' \<in> set s \<longrightarrow>
        snd (splitFileAndPostfix s) =
          (if hd s = CHR ''?'' then [] else dropWhile (\<lambda>c. c \<noteq> CHR ''?'') s))
   \<and> (CHR ''?'' \<notin> set s \<longrightarrow>
        snd (splitFileAndPostfix s) =
          (if CHR ''#'' \<in> set s \<and> hd s \<noteq> CHR ''#''
           then dropWhile (\<lambda>c. c \<noteq> CHR ''#'') s else []))"
  using splitFileAndPostfix_append [of s] splitFileAndPostfix_head [of s]
  by (simp add: splitFileAndPostfix_postfix)

theorem C4_splitFileAndPostfix_amended_witness:
  "CHR ''?'' \<in> set ''a#b?c''
   \<and> snd (splitFileAndPostfix ''a#b?c'') = ''?c''
   \<and> CHR ''?'' \<notin> set ''/p/a.js#h''
   \<and> snd (splitFileAndPostfix ''/p/a.js#h'') = ''#h''"
  using C4_splitFileAndPostfix_amended [of "''a#b?c''"]
    C4_splitFileAndPostfix_amended [of "''/p/a.js#h''"]
  by simp




text \<open>
  C7: when a call of \<open>resolvePackageEntry\<close> (of \<open>resolveDeepImport\<close>) returns a string, the
  package handle it leaves holds that string in its resolved cache under \<open>.\<close> (under the
  subpath) for the same \<open>targetWeb\<close>, and a second call on that handle returns the same
  string and leaves handle and options as they are, in every environment and under every
  options: the result is read from the cache, and nothing is probed again.
\<close>

theorem C7_memoized:
  "(resolvePackageEntry ev n pid pkg w options = (Return (Some r), pkg', options') \<longrightarrow>
      getResolvedCache pkg' ''.'' w = Some r
      \<and> resolvePackageEntry ev2 (Suc m) pid pkg' w options2 = (Return (Some r), pkg', options2))
   \<and> (resolveDeepImport ev n k pkg w options = (Return (Some r), pkg', options') \<longrightarrow>
      getResolvedCache pkg' k w = Some r
      \<and> resolveDeepImport ev2 m k pkg' w options2 = (Return (Some r), pkg', options2))"
proof (intro conjI impI)
  assume a: "resolvePackageEntry ev n pid pkg w options = (Return (Some r), pkg', options')"
  from resolvePackageEntry_success [OF a]
  show c: "getResolvedCache pkg' ''.'' w = Some r" by simp
  from resolvePackageEntry_success [OF a] have "truthy (getResolvedCache pkg' ''.'' w)" by simp
  from resolvePackageEntry_cached [OF this, of ev2 m pid options2] c
  show "resolvePackageEntry ev2 (Suc m) pid pkg' w options2 = (Return (Some r), pkg', options2)"
    by simp
next
  assume a: "resolveDeepImport ev n k pkg w options = (Return (Some r), pkg', options')"
  from resolveDeepImport_success [OF a]
  show c: "getResolvedCache pkg' k w = Some r" by simp
  from resolveDeepImport_success [OF a] c have "truthy (getResolvedCache pkg' k w)"
    by (simp add: truthy_def)
  from resolveDeepImport_cached [OF this, of ev2 m options2] c
  show "resolveDeepImport ev2 m k pkg' w options2 = (Return (Some r), pkg', options2)"
    by simp
qed

theorem C7_memoized_witness:
  "resolvePackageEntry fooEnv (Suc (Suc (Suc 0))) ''foo''
     (freshPackage ''/p/node_modules/foo'' fooManifest) True (defaultOptions ''/p'')
   = (Return (Some ''/p/node_modules/foo/foo.mjs''),
      setResolvedCache (freshPackage ''/p/node_modules/foo'' fooManifest) ''.''
        ''/p/node_modules/foo/foo.mjs'' True,
      defaultOptions ''/p'')
   \<and> resolvePackageEntry barEnv (Suc 0) ''foo''
       (setResolvedCache (freshPackage ''/p/node_modules/foo'' fooManifest) ''.''
          ''/p/node_modules/foo/foo.mjs'' True)
       True (defaultOptions ''/q'')
     = (Return (Some ''/p/node_modules/foo/foo.mjs''),
        setResolvedCache (freshPackage ''/p/node_modules/foo'' fooManifest) ''.''
          ''/p/node_modules/foo/foo.mjs'' True,
        defaultOptions ''/q'')
   \<and> resolveDeepImport barEnv (Suc (Suc 0)) ''./sub''
       (freshPackage ''/p/node_modules/bar'' barManifest) True (defaultOptions ''/p'')
     = (Return (Some ''/p/node_modules/bar/lib/sub.js''),
        setResolvedCache (freshPackage ''/p/node_modules/bar'' barManifest) ''./sub''
          ''/p/node_modules/bar/lib/sub.js'' True,
        defaultOptions ''/p'')
   \<and> resolveDeepImport fooEnv 0 ''./sub''
       (setResolvedCache (freshPackage ''/p/node_modules/bar'' barManifest) ''./sub''
          ''/p/node_modules/bar/lib/sub.js'' True)
       True (defaultOptions ''/q'')
     = (Return (Some ''/p/node_modules/bar/lib/sub.js''),
        setResolvedCache (freshPackage ''/p/node_modules/bar'' barManifest) ''./sub''
          ''/p/node_modules/bar/lib/sub.js'' True,
        defaultOptions ''/q'')"
  using C7_memoized [THEN conjunct1, rule_format, OF fooEnv_entry, of barEnv 0 "defaultOptions ''/q''"]
    C7_memoized [THEN conjunct2, rule_format, OF barEnv_sub, of fooEnv 0 "defaultOptions ''/q''"]
    fooEnv_entry barEnv_sub
  by simp

text \<open>
  C6: let \<open>isFromTsImporter\<close> be set and the file be a possible TypeScript output. Then the
  result of \<open>tryResolveFile\<close> is the result of its body with the recursive call replaced by
  any function that agrees with it on the TypeScript source candidates, so the retry on
  the prefixed path is never made, whatever \<open>tryPrefix\<close> is. When the file is not readable
  (or is a directory and \<open>tryIndex\<close> is off), the result is that of the candidates tried in
  order: \<open>undefined\<close> when all of them fail, also when \<open>tryPrefix\<close> is set.
\<close>

theorem C6_ts_fallback_skips_prefix:
  assumes ts: "o_isFromTsImporter options" and out: "isPossibleTsOutput (e_ut ev) fl"
  shows "(\<forall>R. (\<forall>src \<in> set (getPotentialTsSrcPaths (e_ut ev) fl). R src = tryResolveFile ev n src)
            \<longrightarrow> tryResolveFileBody ev (tryFsResolve ev n) R (resolvePackageEntry ev n)
                  fl pf options ti tw tp sk
                = tryResolveFile ev (Suc n) fl pf options ti tw tp sk)
         \<and> (\<not> (isFileReadable (e_fs ev) fl \<and> (\<not> isDirectory (e_fs ev) fl \<or> ti))
            \<longrightarrow> tryResolveFile ev (Suc n) fl pf options ti tw tp sk
                = firstTruthy
                    (map (\<lambda>src opts. tryResolveFile ev n src pf opts ti tw tp sk)
                       (getPotentialTsSrcPaths (e_ut ev) fl))
                    options)"
proof (intro conjI allI impI)
  fix R
  assume "\<forall>src \<in> set (getPotentialTsSrcPaths (e_ut ev) fl). R src = tryResolveFile ev n src"
  then show "tryResolveFileBody ev (tryFsResolve ev n) R (resolvePackageEntry ev n)
               fl pf options ti tw tp sk
             = tryResolveFile ev (Suc n) fl pf options ti tw tp sk"
    unfolding tryResolveFile_Suc
    using tryResolveFileBody_ts_cong [OF _ _ ts out] probe_same by blast
next
  assume "\<not> (isFileReadable (e_fs ev) fl \<and> (\<not> isDirectory (e_fs ev) fl \<or> ti))"
  with ts out show "tryResolveFile ev (Suc n) fl pf options ti tw tp sk
                = firstTruthy
                    (map (\<lambda>src opts. tryResolveFile ev n src pf opts ti tw tp sk)
                       (getPotentialTsSrcPaths (e_ut ev) fl))
                    options"
    by (rule tryResolveFile_ts_tail)
qed

theorem C6_ts_fallback_skips_prefix_witness:
  "o_isFromTsImporter tsOptions \<and> isPossibleTsOutput (e_ut tsEnv) ''/p/src/util.js''
   \<and> isFileReadable (e_fs tsEnv) ''/p/src/_util.js''
   \<and> tryResolveFile tsEnv (Suc (Suc (Suc 0))) ''/p/src/util.js'' [] tsOptions False True
         (Some ''_'') False
       = (Return None, tsOptions)
   \<and> tryResolveFileBody tsEnv (tryFsResolve tsEnv (Suc (Suc 0)))
         (\<lambda>src. if src \<in> set [''/p/src/util.ts'', ''/p/src/util.tsx'']
                then tryResolveFile tsEnv (Suc (Suc 0)) src
                else (\<lambda>pf opts ti tw tp sk. (Throw (Error None ''prefix retry''), opts)))
         (resolvePackageEntry tsEnv (Suc (Suc 0)))
         ''/p/src/util.js'' [] tsOptions False True (Some ''_'') False
       = (Return None, tsOptions)
   \<and> tryResolveFile tsEnv (Suc (Suc (Suc 0))) ''/p/src/util.js'' []
         (tsOptions\<lparr>o_isFromTsImporter := False\<rparr>) False True (Some ''_'') False
       = (Return (Some ''/p/src/_util.js''), tsOptions\<lparr>o_isFromTsImporter := False\<rparr>)"
proof -
  let ?R = "\<lambda>src. if src \<in> set [''/p/src/util.ts'', ''/p/src/util.tsx'']
                then tryResolveFile tsEnv (Suc (Suc 0)) src
                else (\<lambda>pf opts ti tw tp sk. (Throw (Error None ''prefix retry''), opts))"
  note inst = C6_ts_fallback_skips_prefix [OF tsOptions_fields(1) tsEnv_facts(2),
      of "Suc (Suc 0)" "[]" False True "Some ''_''" False]
  have agree: "\<And>src. src \<in> set (getPotentialTsSrcPaths (e_ut tsEnv) ''/p/src/util.js'')
                 \<Longrightarrow> ?R src = tryResolveFile tsEnv (Suc (Suc 0)) src"
    by (simp add: tsEnv_facts(1))
  have tail: "tryResolveFile tsEnv (Suc (Suc (Suc 0))) ''/p/src/util.js'' [] tsOptions False True
                (Some ''_'') False = (Return None, tsOptions)"
    using inst [THEN conjunct2] by (simp add: tsEnv_facts tsEnv_candidates truthy_def)
  have body: "tryResolveFileBody tsEnv (tryFsResolve tsEnv (Suc (Suc 0))) ?R
                (resolvePackageEntry tsEnv (Suc (Suc 0)))
                ''/p/src/util.js'' [] tsOptions False True (Some ''_'') False
              = (Return None, tsOptions)"
    using inst [THEN conjunct1, rule_format, where R = ?R, OF agree] tail by simp
  have plain: "tryResolveFile tsEnv (Suc (Suc (Suc 0))) ''/p/src/util.js'' []
         (tsOptions\<lparr>o_isFromTsImporter := False\<rparr>) False True (Some ''_'') False
       = (Return (Some ''/p/src/_util.js''), tsOptions\<lparr>o_isFromTsImporter := False\<rparr>)"
    by (simp add: tryResolveFile_unreadable_prefix tryResolveFile_readable tsEnv_facts
        tsOptions_fields truthy_def)
  from tail body plain show ?thesis
    by (simp add: tsOptions_fields tsEnv_facts)
qed

text \<open>
  C8, as the code has it: for a specifier that starts with \<open>/@fs/\<close> and does not contain
  \<open>?commonjs\<close>, under \<open>asSrc\<close>, \<open>resolveId\<close> returns the stripped path without probing
  when the optimizer claims the specifier as the URL of an optimized dependency; otherwise
  it probes the stripped path and, when the probe returns, returns the probe result if it
  is truthy and the stripped path itself if it is not, never \<open>undefined\<close>; an error thrown
  by the probe is thrown by \<open>resolveId\<close>.
\<close>

theorem C8_fs_prefix_amended:
  assumes asSrc: "o_asSrc resolveOptions"
    and pre: "startsWith rid FS_PREFIX"
    and nc: "\<not> strIncludes rid ''?commonjs''"
  shows "resolveId ev n resolveOptions st rid importer resolveOpts =
     (if (case e_depsOptimizer ev of Some d \<Rightarrow> isOptimizedDepUrl d rid | None \<Rightarrow> False)
      then (Return (IdString (fsPathFromId (e_ut ev) rid)), st)
      else (case fst (tryFsResolve ev n (fsPathFromId (e_ut ev) rid)
                        (perCallOptions ev resolveOptions importer resolveOpts) True True) of
              Return res \<Rightarrow>
                (Return (IdString (if truthy res then the res else fsPathFromId (e_ut ev) rid)), st)
            | Throw e \<Rightarrow> (Throw e, st)
            | Diverge \<Rightarrow> (Diverge, st)))"
  using asSrc pre nc FS_PREFIX_not_special [OF pre]
  by (simp add: resolveId_def fsPrefixStep_def optimizedDepUrlPath_fs Let_def
      split: prod.split outcome.split)

theorem C8_fs_prefix_amended_witness:
  "o_asSrc (defaultOptions ''/p'') \<and> startsWith ''/@fs/p/missing.js'' FS_PREFIX
   \<and> \<not> strIncludes ''/@fs/p/missing.js'' ''?commonjs''
   \<and> resolveId barEnv (Suc (Suc 0)) (defaultOptions ''/p'') emptyState ''/@fs/p/missing.js'' None
        clientCall
      = (Return (IdString ''/p/missing.js''), emptyState)"
proof -
  let ?o = "(defaultOptions ''/p'')\<lparr>o_isRequire := Some False\<rparr>"
  have a: "o_asSrc (defaultOptions ''/p'')" by (simp add: defaultOptions_def)
  have probe: "tryFsResolve barEnv (Suc (Suc 0)) ''/p/missing.js'' ?o True True = (Return None, ?o)"
    by (rule tryFsResolve_missing [OF barEnv_missing(3) _ barEnv_missing(4)])
      (simp_all add: defaultOptions_def truthy_def)
  have r: "resolveId barEnv (Suc (Suc 0)) (defaultOptions ''/p'') emptyState ''/@fs/p/missing.js'' None
             clientCall = (Return (IdString ''/p/missing.js''), emptyState)"
    using C8_fs_prefix_amended [OF a barEnv_missing(5,6), of barEnv "Suc (Suc 0)" emptyState None clientCall]
    by (simp add: barEnv_missing(1,2) perCallOptions_plain probe truthy_def)
  show ?thesis
    using a barEnv_missing(5,6) r by blast
qed

text \<open>
  C8 as stated fails for a specifier that contains \<open>?commonjs\<close>: the fast path for the
  proxy modules of the CommonJS plugin comes first and returns \<open>undefined\<close>.
\<close>

theorem C8_commonjs_counterexample:
  "o_asSrc (defaultOptions ''/p'') \<and> startsWith ''/@fs/p/x.js?commonjs-proxy'' FS_PREFIX
   \<and> fst (resolveId barEnv (Suc (Suc 0)) (defaultOptions ''/p'') emptyState ''/@fs/p/x.js?commonjs-proxy'' None
        clientCall) = Return Undefined"
proof -
  have f: "startsWith ''/@fs/p/x.js?commonjs-proxy'' FS_PREFIX"
    "strIncludes ''/@fs/p/x.js?commonjs-proxy'' ''?commonjs''"
    "\<not> startsWith ''/@fs/p/x.js?commonjs-proxy'' browserExternalId"
    by code_simp+
  show ?thesis
    using f by (simp add: resolveId_def defaultOptions_def)
qed

text \<open>
  C9: a bare specifier that names a Node built-in and that no earlier step resolves (the
  relative step, the optimizer, the browser mapping and the package resolution all fall
  through). Under \<open>ssr\<close> the result is \<open>{ id, external: true }\<close>, or the error
  \<open>Cannot bundle Node.js built-in\<close> when \<open>ssr.noExternal\<close> is \<open>true\<close>; for the client it is
  the browser-external sentinel in production and the sentinel followed by \<open>:<id>\<close> in
  development.
\<close>

theorem C9_builtin_fallback:
  assumes early: "\<not> startsWith rid browserExternalId" "\<not> strIncludes rid ''?commonjs''"
      "rid \<noteq> ''commonjsHelpers.js''"
    and nourl: "\<not> (o_asSrc resolveOptions
                    \<and> (case e_depsOptimizer ev of Some d \<Rightarrow> isOptimizedDepUrl d rid | None \<Rightarrow> False))"
    and noslash: "\<not> startsWith rid ''/''"
    and tw: "targetWeb = (\<not> ro_ssr resolveOpts \<or> o_ssrTarget resolveOptions = Some ''webworker'')"
    and ext: "externalize
                = (case o_shouldExternalize resolveOptions of Some f \<Rightarrow> f rid | None \<Rightarrow> False)"
    and rel: "relativeStep ev n st (perCallOptions ev resolveOptions importer resolveOpts) rid
                importer targetWeb (ro_ssr resolveOpts) = (None, st1, opts1)"
    and nurl: "\<not> isExternalUrl (e_ut ev) rid" "\<not> isDataUrl (e_ut ev) rid"
    and bare: "bareImportRE (e_ut ev) rid"
    and opt: "optimizedStep ev st1 opts1 rid importer (ro_ssr resolveOpts) externalize
                = (None, st2, opts2)"
    and bm: "browserMappingStep ev n st2 opts2 rid importer targetWeb False externalize
                = (None, st3, opts3)"
    and nr: "nodeResolveStep ev n st3 opts3 rid importer targetWeb (ro_ssr resolveOpts) externalize
                = (None, st4, opts4)"
    and builtin: "isBuiltin (e_ut ev) rid"
  shows "resolveId ev n resolveOptions st rid importer resolveOpts =
     (if ro_ssr resolveOpts
      then if o_ssrNoExternal resolveOptions
           then Throw (Error None (builtinMessage ev rid importer))
           else Return (Resolved \<lparr>res_id = rid, res_external = True, res_moduleSideEffects = None\<rparr>)
      else Return (IdString (if o_isProduction resolveOptions then browserExternalId
                             else browserExternalId @ '':'' @ rid)),
      st4)"
proof -
  let ?o = "perCallOptions ev resolveOptions importer resolveOpts"
  let ?ssr = "ro_ssr resolveOpts"
  have nofs: "\<not> startsWith rid FS_PREFIX" "\<not> isAbsolute rid"
    using noslash startsWith_slash by blast+
  have s1: "sameButSkip ?o opts1" using step_sameD(1) [OF rel] .
  have o2: "opts2 = opts1" using optimizedStep_opts [OF opt] .
  have s3: "sameButSkip opts2 opts3" using step_sameD(2) [OF bm] .
  have s4: "sameButSkip opts3 opts4" using step_sameD(3) [OF nr] .
  have s: "sameButSkip ?o opts4"
    using s1 o2 s3 s4 sameButSkip_trans by blast
  have ext1: "(case o_shouldExternalize opts1 of Some f \<Rightarrow> f rid | None \<Rightarrow> False) = externalize"
    using sameButSkip_fields(18) [OF s1] ext by (simp add: perCallOptions_fields)
  have bs: "bareStep ev n st1 opts1 rid importer targetWeb ?ssr
              = (builtinResult ev opts4 rid importer ?ssr, st4)"
    using bare builtin opt bm nr
    by (simp add: bareStep_def Let_def ext1 orStep_def)
  have br: "builtinResult ev opts4 rid importer ?ssr
              = builtinResult ev resolveOptions rid importer ?ssr"
    using sameButSkip_fields(8) [OF s] sameButSkip_fields(10) [OF s]
    by (simp add: builtinResult_def perCallOptions_fields)
  have "resolveId ev n resolveOptions st rid importer resolveOpts
          = (builtinResult ev opts4 rid importer ?ssr, st4)"
  proof -
    have nourl': "(o_asSrc resolveOptions
                    \<and> (case e_depsOptimizer ev of Some d \<Rightarrow> isOptimizedDepUrl d rid | None \<Rightarrow> False))
                  = False"
      using nourl by simp
    have rel': "relativeStep ev n st ?o rid importer
                  (\<not> ?ssr \<or> o_ssrTarget resolveOptions = Some ''webworker'') ?ssr = (None, st1, opts1)"
      using rel tw by simp
    have bs': "bareStep ev n st1 opts1 rid importer
                  (\<not> ?ssr \<or> o_ssrTarget resolveOptions = Some ''webworker'') ?ssr
                = (builtinResult ev opts4 rid importer ?ssr, st4)"
      using bs tw by simp
    show ?thesis
      unfolding resolveId_def Let_def
      by (simp only: early nofs noslash nurl nourl' rel' bs' orStep_def if_False simp_thms
          prod.case option.case)
  qed
  then have "resolveId ev n resolveOptions st rid importer resolveOpts
          = (builtinResult ev resolveOptions rid importer ?ssr, st4)"
    by (simp only: br)
  then show ?thesis
    by (simp add: builtinResult_def)
qed

theorem C9_builtin_fallback_witness:
  "resolveId barEnv (Suc (Suc 0)) (defaultOptions ''/p'') emptyState ''fs'' None ssrCall
     = (Return (Resolved \<lparr>res_id = ''fs'', res_external = True, res_moduleSideEffects = None\<rparr>),
        emptyState)
   \<and> resolveId barEnv (Suc (Suc 0)) ((defaultOptions ''/p'')\<lparr>o_ssrNoExternal := True\<rparr>) emptyState
        ''fs'' None ssrCall
     = (Throw (Error None (''Cannot bundle Node.js built-in \"fs\". ''
          @ ''Consider disabling ssr.noExternal or remove the built-in dependency.'')),
        emptyState)
   \<and> resolveId barEnv (Suc (Suc 0)) (defaultOptions ''/p'') emptyState ''fs'' None clientCall
     = (Return (IdString ''__vite-browser-external:fs''), emptyState)
   \<and> resolveId barEnv (Suc (Suc 0)) ((defaultOptions ''/p'')\<lparr>o_isProduction := True\<rparr>) emptyState
        ''fs'' None clientCall
     = (Return (IdString ''__vite-browser-external''), emptyState)"
proof -
  have pr: "\<not> o_preferRelative (perCallOptions barEnv (ro :: InternalResolveOptions) None call)"
    if "\<not> o_preferRelative ro" for ro call
    using that by (simp add: perCallOptions_fields)
  have nourl: "\<not> (o_asSrc ro
                   \<and> (case e_depsOptimizer barEnv of Some d \<Rightarrow> isOptimizedDepUrl d ''fs''
                       | None \<Rightarrow> False))" for ro :: InternalResolveOptions
    by (simp add: barEnv_no_fs_package)
  have inst: "resolveId barEnv (Suc (Suc 0)) ro emptyState ''fs'' None call =
     (if ro_ssr call
      then if o_ssrNoExternal ro
           then Throw (Error None (builtinMessage barEnv ''fs'' None))
           else Return (Resolved \<lparr>res_id = ''fs'', res_external = True, res_moduleSideEffects = None\<rparr>)
      else Return (IdString (if o_isProduction ro then browserExternalId
                             else browserExternalId @ '':'' @ ''fs'')),
      emptyState)"
    if p: "\<not> o_preferRelative ro" for ro call
    by (rule C9_builtin_fallback
          [OF builtin_fs_facts(1,2,3) nourl builtin_fs_facts(4) refl refl
              builtin_fs_steps(1) [OF pr [OF p]] builtin_fs_facts(6,7,8)
              builtin_fs_steps(2) [OF pr [OF p]] builtin_fs_steps(3) [OF pr [OF p]]
              builtin_fs_steps(4) [OF pr [OF p]] builtin_fs_facts(9)])
  have p0: "\<not> o_preferRelative (defaultOptions ''/p'')"
    "\<not> o_preferRelative ((defaultOptions ''/p'')\<lparr>o_ssrNoExternal := True\<rparr>)"
    "\<not> o_preferRelative ((defaultOptions ''/p'')\<lparr>o_isProduction := True\<rparr>)"
    by (simp_all add: defaultOptions_def)
  have v: "\<not> o_ssrNoExternal (defaultOptions ''/p'')" "\<not> o_isProduction (defaultOptions ''/p'')"
    "ro_ssr ssrCall" "\<not> ro_ssr clientCall"
    "builtinMessage barEnv ''fs'' None
       = ''Cannot bundle Node.js built-in \"fs\". ''
         @ ''Consider disabling ssr.noExternal or remove the built-in dependency.''"
    "browserExternalId @ '':'' @ ''fs'' = ''__vite-browser-external:fs''"
    "browserExternalId = ''__vite-browser-external''"
    "o_ssrNoExternal ((defaultOptions ''/p'')\<lparr>o_ssrNoExternal := True\<rparr>)"
    "o_isProduction ((defaultOptions ''/p'')\<lparr>o_isProduction := True\<rparr>)"
    by (simp_all add: defaultOptions_def ssrCall_def clientCall_def builtinMessage_def
        browserExternalId_def truthy_def)
  have r1: "resolveId barEnv (Suc (Suc 0)) (defaultOptions ''/p'') emptyState ''fs'' None ssrCall
     = (Return (Resolved \<lparr>res_id = ''fs'', res_external = True, res_moduleSideEffects = None\<rparr>),
        emptyState)"
    using inst [OF p0(1), of ssrCall] by (simp only: v(1,3) if_True if_False)
  have r2: "resolveId barEnv (Suc (Suc 0)) ((defaultOptions ''/p'')\<lparr>o_ssrNoExternal := True\<rparr>)
        emptyState ''fs'' None ssrCall
     = (Throw (Error None (''Cannot bundle Node.js built-in \"fs\". ''
          @ ''Consider disabling ssr.noExternal or remove the built-in dependency.'')),
        emptyState)"
    using inst [OF p0(2), of ssrCall] by (simp only: v(3,5,8) if_True)
  have r3: "resolveId barEnv (Suc (Suc 0)) (defaultOptions ''/p'') emptyState ''fs'' None clientCall
     = (Return (IdString ''__vite-browser-external:fs''), emptyState)"
    using inst [OF p0(1), of clientCall] by (simp only: v(2,4,6) if_False)
  have r4: "resolveId barEnv (Suc (Suc 0)) ((defaultOptions ''/p'')\<lparr>o_isProduction := True\<rparr>)
        emptyState ''fs'' None clientCall
     = (Return (IdString ''__vite-browser-external''), emptyState)"
    using inst [OF p0(3), of clientCall] by (simp only: v(4,7,9) if_False if_True)
  show ?thesis
    by (intro conjI r1 r2 r3 r4)
qed

text \<open>
  C1, as the code has it: in a well-formed environment and state, when \<open>resolveId\<close> returns
  a structured result that does not carry \<open>external: true\<close>, its id is the
  browser-external sentinel, or an absolute path in normal form followed by a postfix that
  is empty or begins with \<open>?\<close> or \<open>#\<close>. So the id is the sentinel or absolute, never
  relative. The state the call leaves is well-formed again, so the invariant carries over
  to the next call.
\<close>

theorem C1_structured_ids_amended:
  assumes env: "wfEnv ev" and st: "wfState st"
    and run: "fst (resolveId ev n resolveOptions st rid importer resolveOpts)
                = Return (Resolved r)"
    and internal: "\<not> res_external r"
  shows "goodId (res_id r) \<and> (res_id r = browserExternalId \<or> isAbsolute (res_id r))
         \<and> wfState (snd (resolveId ev n resolveOptions st rid importer resolveOpts))"
proof -
  have g: "resultGood (resolveId ev n resolveOptions st rid importer resolveOpts)"
    using env st by (rule resolveId_good)
  then have "goodId (res_id r)"
    using run internal unfolding resultGood_def by blast
  moreover from this have "res_id r = browserExternalId \<or> isAbsolute (res_id r)"
    using pathWithPostfix_absolute by (auto simp: goodId_def)
  moreover have "wfState (snd (resolveId ev n resolveOptions st rid importer resolveOpts))"
    using g by (simp add: resultGood_def)
  ultimately show ?thesis by blast
qed

theorem C1_structured_ids_amended_witness:
  "wfEnv hashEnv \<and> wfState hashState
   \<and> fst (resolveId hashEnv 4 (defaultOptions ''/p'') hashState ''./d#y/?x'' (Some ''/p/main.js'')
        clientCall)
      = Return (Resolved \<lparr>res_id = ''/p/d#y//index?x'', res_external = False,
                           res_moduleSideEffects = Some True\<rparr>)
   \<and> goodId ''/p/d#y//index?x'' \<and> isAbsolute ''/p/d#y//index?x''
   \<and> wfEnv optimizedFooEnv \<and> wfState emptyState
   \<and> fst (resolveId optimizedFooEnv 4 (defaultOptions ''/p'') emptyState ''foo'' None clientCall)
      = Return (Resolved \<lparr>res_id = ''/p/node_modules/.vite/deps/foo.js?v=abc'',
                           res_external = False, res_moduleSideEffects = None\<rparr>)
   \<and> goodId ''/p/node_modules/.vite/deps/foo.js?v=abc''
   \<and> wfState (snd (resolveId optimizedFooEnv 4 (defaultOptions ''/p'') emptyState ''foo'' None
                      clientCall))
   \<and> fst (resolveId optimizedFooEnv 4 (defaultOptions ''/p'') emptyState ''foo'' None ssrCall)
      = Return (Resolved \<lparr>res_id = ''/p/node_modules/foo/foo.mjs?v=abc'',
                           res_external = False, res_moduleSideEffects = None\<rparr>)
   \<and> goodId ''/p/node_modules/foo/foo.mjs?v=abc''"
proof -
  have h: "goodId ''/p/d#y//index?x'' \<and> isAbsolute ''/p/d#y//index?x''"
    using C1_structured_ids_amended [OF wfEnv_hashEnv wfState_hashState hashEnv_run]
      hashEnv_id(2) by simp
  have c: "goodId ''/p/node_modules/.vite/deps/foo.js?v=abc''
           \<and> wfState (snd (resolveId optimizedFooEnv 4 (defaultOptions ''/p'') emptyState ''foo''
                              None clientCall))"
    using C1_structured_ids_amended [OF wfEnv_optimizedFooEnv wfState_emptyState
        optimizedFooEnv_client] by simp
  have s: "goodId ''/p/node_modules/foo/foo.mjs?v=abc''"
    using C1_structured_ids_amended [OF wfEnv_optimizedFooEnv wfState_emptyState
        optimizedFooEnv_ssr] by simp
  show ?thesis
    using h c s wfEnv_hashEnv wfState_hashState hashEnv_run wfEnv_optimizedFooEnv
      wfState_emptyState optimizedFooEnv_client optimizedFooEnv_ssr
    by (intro conjI) simp_all
qed

text \<open>
  C1 as stated asks for the id itself to be absolute and in normal form. That fails where
  the postfix holds a slash that \<open>path.normalize\<close> would change: with a file \<open>/p/d\<close> beside
  a directory \<open>/p/d#y\<close>, the specifier \<open>./d#y/?x\<close> is first split at \<open>?\<close>, the directory
  index \<open>/p/d#y//index\<close> is split again at \<open>#\<close>, and the file \<open>/p/d\<close> answers with both
  postfixes appended: \<open>/p/d#y//index?x\<close>.
\<close>

theorem C1_whole_string_counterexample:
  "(case fst (resolveId hashEnv 4 (defaultOptions ''/p'') hashState ''./d#y/?x''
                (Some ''/p/main.js'') clientCall) of
      Return (Resolved r) \<Rightarrow>
        \<not> res_external r \<and> \<not> absoluteNormalized (res_id r) \<and> res_id r \<noteq> browserExternalId
    | _ \<Rightarrow> False)"
  by (simp add: hashEnv_run hashEnv_id)

end
